theory Spec2Isabelle
  imports Complex_Main
begin

section \<open>Tamper triage of screen-time screenshots (15_edge_anomaly.py)\<close>

text \<open>
  A shallow embedding of the triage pipeline of \<^verbatim>\<open>src/15_edge_anomaly.py\<close>.
  Conventions of the model:
  \<^item> NumPy \<^verbatim>\<open>float32\<close> and Python \<^verbatim>\<open>float\<close> values are real numbers. The casts of
    the values read from a bundle (\<^verbatim>\<open>.astype(np.float32)\<close> in the picker, and
    \<^verbatim>\<open>np.array(score, dtype=np.float32)\<close>) round to the nearest binary32 value; the
    rounding of the arithmetic on the maps, infinities and NaN are not modelled.
  \<^item> A NumPy array is its shape together with its entries in row-major order.
  \<^item> A Python exception is a value \<open>Inl e\<close> of a sum type.
  \<^item> The collaborators outside the file (\<^verbatim>\<open>cv2.imread\<close>, the TruFor subprocess with
    \<^verbatim>\<open>np.load\<close>, \<^verbatim>\<open>pytesseract.image_to_data\<close>) are inputs of the functions that call them.
\<close>

subsection \<open>Boxes\<close>

text \<open>
  The dataclass \<^verbatim>\<open>Box\<close>. Its fields carry the prefix \<open>box_\<close> here, since a record field
  is a constant of the theory. Its text comes from the OCR engine and is Unicode text: a
  Python \<^verbatim>\<open>str\<close> of arbitrary characters, modelled as the list of its code points.
\<close>

type_synonym ustring = "nat list"

record Box =
  box_x :: int
  box_y :: int
  box_w :: int
  box_h :: int
  box_text :: ustring
  box_conf :: real

definition clamp_box :: "int \<Rightarrow> int \<Rightarrow> int \<Rightarrow> int \<Rightarrow> int \<Rightarrow> int \<Rightarrow> int \<times> int \<times> int \<times> int" where
  "clamp_box x y w h W H =
     (let x' = max 0 (min x (W - 1));
          y' = max 0 (min y (H - 1));
          w' = max 1 (min w (W - x'));
          h' = max 1 (min h (H - y'))
      in (x', y', w', h'))"

subsection \<open>Arrays, slices and crops\<close>

record ndarray =
  shape :: "nat list"
  data :: "real list"

text \<open>\<^verbatim>\<open>arr.size\<close>: the product of the shape.\<close>

definition size_of :: "ndarray \<Rightarrow> nat" where
  "size_of a = prod_list (shape a)"

text \<open>An array is well formed when it has as many entries as its shape says.\<close>

definition wf_array :: "ndarray \<Rightarrow> bool" where
  "wf_array a = (length (data a) = size_of a)"

text \<open>
  A Python slice bound on a sequence of length \<open>n\<close>: a negative bound counts from the
  end, and every bound is cut to \<open>0..n\<close>.
\<close>

definition slice_bound :: "int \<Rightarrow> nat \<Rightarrow> nat" where
  "slice_bound i n = (if i < 0 then nat (max 0 (i + int n)) else min (nat i) n)"

text \<open>\<^verbatim>\<open>xs[a:b]\<close>.\<close>

definition py_slice :: "int \<Rightarrow> int \<Rightarrow> 'a list \<Rightarrow> 'a list" where
  "py_slice a b xs =
     (let n = length xs; a' = slice_bound a n; b' = slice_bound b n
      in take (b' - a') (drop a' xs))"

text \<open>
  \<^verbatim>\<open>crop(img, x, y, w, h) = img[y:y + h, x:x + w]\<close> on a two-dimensional array: the row
  indices and the column indices the two slices select, and the entries at their
  crossings. The scorer only crops two-dimensional maps; on any other shape the model
  returns the empty array.
\<close>

definition crop :: "ndarray \<Rightarrow> int \<Rightarrow> int \<Rightarrow> int \<Rightarrow> int \<Rightarrow> ndarray" where
  "crop img x y w h =
     (case shape img of
        [H, W] \<Rightarrow>
          (let rs = py_slice y (y + h) [0..<H];
               cs = py_slice x (x + w) [0..<W]
           in \<lparr>shape = [length rs, length cs],
               data = concat (map (\<lambda>i. map (\<lambda>j. data img ! (i * W + j)) cs) rs)\<rparr>)
      | _ \<Rightarrow> \<lparr>shape = [0], data = []\<rparr>)"

text \<open>
  \<^verbatim>\<open>a.mean()\<close>. NumPy returns NaN on an empty array; the model returns \<open>0\<close> there (division
  by zero in HOL), and the theorems below show that the scorer never takes the mean of an
  empty crop of a map with at least one row and one column.
\<close>

definition mean :: "ndarray \<Rightarrow> real" where
  "mean a = sum_list (data a) / real (length (data a))"

text \<open>\<^verbatim>\<open>l * r\<close> on two arrays of one shape: the entrywise product.\<close>

definition mul :: "ndarray \<Rightarrow> ndarray \<Rightarrow> ndarray" where
  "mul l r = \<lparr>shape = shape l, data = map2 (*) (data l) (data r)\<rparr>"

text \<open>\<^verbatim>\<open>(r >= rel_min).astype(np.float32)\<close>: the 0/1 indicator.\<close>

definition ge_mask :: "ndarray \<Rightarrow> real \<Rightarrow> ndarray" where
  "ge_mask r rel_min = \<lparr>shape = shape r, data = map (\<lambda>v. if v \<ge> rel_min then 1 else 0) (data r)\<rparr>"

subsection \<open>The region scorer\<close>

text \<open>
  \<^verbatim>\<open>H, W = loc.shape\<close> reads the two dimensions of the localization map; the resolver only
  produces two-dimensional maps. For any other shape the model takes \<open>H = W = 0\<close>.
\<close>

definition shape_HW :: "ndarray \<Rightarrow> int \<times> int" where
  "shape_HW a = (case shape a of [H, W] \<Rightarrow> (int H, int W) | _ \<Rightarrow> (0, 0))"

definition roi_anomaly_score :: "ndarray \<Rightarrow> ndarray \<Rightarrow> Box \<Rightarrow> real \<Rightarrow> real" where
  "roi_anomaly_score loc rel roi rel_min =
     (case shape_HW loc of (H, W) \<Rightarrow>
      (case clamp_box (box_x roi) (box_y roi) (box_w roi) (box_h roi) W H of (x, y, w, h) \<Rightarrow>
        (let l = crop loc x y w h;
             r = crop rel x y w h;
             m = ge_mask r rel_min
         in if mean m < 15 / 100 then mean (mul l r) * (25 / 100)
            else mean (mul l m))))"


text \<open>
  The quantities the scorer is specified by, written over pixel coordinates: the entry of a
  map at row \<open>i\<close> and column \<open>j\<close>, the 0/1 reliability mask, and the mean of a function of
  the pixel over the rows \<open>y \<le> i < y + h\<close> and the columns \<open>x \<le> j < x + w\<close> of a box.
\<close>

definition pixel :: "ndarray \<Rightarrow> nat \<Rightarrow> nat \<Rightarrow> real" where
  "pixel a i j = data a ! (i * (case shape a of [H, W] \<Rightarrow> W | _ \<Rightarrow> 0) + j)"

definition mask_px :: "ndarray \<Rightarrow> real \<Rightarrow> nat \<Rightarrow> nat \<Rightarrow> real" where
  "mask_px rel rel_min i j = (if pixel rel i j \<ge> rel_min then 1 else 0)"

definition region_mean :: "(nat \<Rightarrow> nat \<Rightarrow> real) \<Rightarrow> int \<times> int \<times> int \<times> int \<Rightarrow> real" where
  "region_mean f b = (case b of (x, y, w, h) \<Rightarrow>
     (\<Sum>i = nat y..<nat (y + h). \<Sum>j = nat x..<nat (x + w). f i j) / real (nat h * nat w))"

text \<open>All entries of a list lie in the closed interval from 0 to 1.\<close>

definition in01 :: "real list \<Rightarrow> bool" where
  "in01 xs = (\<forall>v\<in>set xs. 0 \<le> v \<and> v \<le> 1)"

text \<open>The entries \<open>f i j\<close> for the rows \<open>rs\<close> and the columns \<open>cs\<close>, row by row.\<close>

definition grid :: "(nat \<Rightarrow> nat \<Rightarrow> real) \<Rightarrow> nat list \<Rightarrow> nat list \<Rightarrow> real list" where
  "grid f rs cs = concat (map (\<lambda>i. map (f i) cs) rs)"

subsection \<open>Strings\<close>

text \<open>
  File names and the keys of a bundle are strings of 8-bit characters, and \<^verbatim>\<open>str.lower\<close>
  is the one of that range (Latin-1): the letters A to Z and the capital letters from
  0xC0 to 0xDE, without the multiplication sign 0xD7, move up by 32.
\<close>

definition lower_char :: "char \<Rightarrow> char" where
  "lower_char c =
     (let n = (of_char c :: nat)
      in if (65 \<le> n \<and> n \<le> 90) \<or> (192 \<le> n \<and> n \<le> 222 \<and> n \<noteq> 215) then char_of (n + 32) else c)"

definition lower :: "string \<Rightarrow> string" where
  "lower s = map lower_char s"

text \<open>
  The text of the OCR engine is Unicode text, a list of code points; \<open>ustr\<close> reads a
  literal of 8-bit characters as such a text. \<^verbatim>\<open>str.isdigit\<close> and the white space that
  \<^verbatim>\<open>str.strip\<close> removes are tables of the Unicode character database (here the ones of
  Unicode 14, as in CPython 3.11), given as the list of their ranges of code points: the
  characters of numeric type Digit or Decimal, which besides 0 to 9 include the
  superscripts 0xB2, 0xB3 and 0xB9, and the characters \<^verbatim>\<open>str.isspace\<close> accepts, which
  besides the ASCII white space include 0x85 and the no-break space 0xA0.
\<close>

definition ustr :: "string \<Rightarrow> ustring" where
  "ustr s = map of_char s"

definition in_ranges :: "(nat \<times> nat) list \<Rightarrow> nat \<Rightarrow> bool" where
  "in_ranges rs c = list_ex (\<lambda>(lo, hi). lo \<le> c \<and> c \<le> hi) rs"

definition digit_ranges :: "(nat \<times> nat) list" where
  "digit_ranges =
     [(48, 57), (178, 179), (185, 185), (1632, 1641), (1776, 1785), (1984, 1993),
      (2406, 2415), (2534, 2543), (2662, 2671), (2790, 2799), (2918, 2927),
      (3046, 3055), (3174, 3183), (3302, 3311), (3430, 3439), (3558, 3567),
      (3664, 3673), (3792, 3801), (3872, 3881), (4160, 4169), (4240, 4249),
      (4969, 4977), (6112, 6121), (6160, 6169), (6470, 6479), (6608, 6618),
      (6784, 6793), (6800, 6809), (6992, 7001), (7088, 7097), (7232, 7241),
      (7248, 7257), (8304, 8304), (8308, 8313), (8320, 8329), (9312, 9320),
      (9332, 9340), (9352, 9360), (9450, 9450), (9461, 9469), (9471, 9471),
      (10102, 10110), (10112, 10120), (10122, 10130), (42528, 42537), (43216, 43225),
      (43264, 43273), (43472, 43481), (43504, 43513), (43600, 43609), (44016, 44025),
      (65296, 65305), (66720, 66729), (68160, 68163), (68912, 68921), (69216, 69224),
      (69714, 69722), (69734, 69743), (69872, 69881), (69942, 69951), (70096, 70105),
      (70384, 70393), (70736, 70745), (70864, 70873), (71248, 71257), (71360, 71369),
      (71472, 71481), (71904, 71913), (72016, 72025), (72784, 72793), (73040, 73049),
      (73120, 73129), (92768, 92777), (92864, 92873), (93008, 93017), (120782, 120831),
      (123200, 123209), (123632, 123641), (125264, 125273), (127232, 127242),
      (130032, 130041)]"

definition space_ranges :: "(nat \<times> nat) list" where
  "space_ranges =
     [(9, 13), (28, 32), (133, 133), (160, 160), (5760, 5760), (8192, 8202),
      (8232, 8233), (8239, 8239), (8287, 8287), (12288, 12288)]"

definition py_isdigit :: "nat \<Rightarrow> bool" where
  "py_isdigit c = in_ranges digit_ranges c"

definition py_isspace :: "nat \<Rightarrow> bool" where
  "py_isspace c = in_ranges space_ranges c"

definition strip :: "ustring \<Rightarrow> ustring" where
  "strip s = rev (dropWhile py_isspace (rev (dropWhile py_isspace s)))"

text \<open>\<^verbatim>\<open>" ".join(words)\<close>; the space is the code point 32.\<close>

fun join_sp :: "ustring list \<Rightarrow> ustring" where
  "join_sp [] = []"
| "join_sp [w] = w"
| "join_sp (w # ws) = w @ [32] @ join_sp ws"

fun starts_with :: "string \<Rightarrow> string \<Rightarrow> bool" where
  "starts_with [] s = True"
| "starts_with (c # cs) [] = False"
| "starts_with (c # cs) (d # ds) = (c = d \<and> starts_with cs ds)"

text \<open>\<^verbatim>\<open>token in s\<close>: the token occurs in \<open>s\<close> as a contiguous substring.\<close>

fun str_in :: "string \<Rightarrow> string \<Rightarrow> bool" where
  "str_in token [] = (token = [])"
| "str_in token (c # cs) = (starts_with token (c # cs) \<or> str_in token cs)"

subsection \<open>The output bundle resolver\<close>

text \<open>
  The bundle \<^verbatim>\<open>np.load\<close> returns: the keys in iteration order, each with its array (an
  \<^verbatim>\<open>NpzFile\<close> hands out \<^verbatim>\<open>ndarray\<close>s only, so of the test
  \<^verbatim>\<open>np.isscalar(arr) or (isinstance(arr, np.ndarray) and arr.size == 1)\<close> the second part
  is the one that decides).
\<close>

type_synonym npz = "(string \<times> ndarray) list"

datatype py_error =
    KeyError string "string list"
  | IndexError
  | ExternalError string

text \<open>
  \<open>KeyError path keys\<close> is the exception
  \<^verbatim>\<open>KeyError(f"Could not infer required outputs from {npz_path}.\nAvailable keys: {list(npz.keys())}")\<close>:
  the two values its message is built from. \<open>IndexError\<close> is NumPy's error on an index
  into an axis of length zero. \<open>ExternalError\<close> is any exception of a collaborator (the
  TruFor subprocess, \<^verbatim>\<open>np.load\<close>, the OCR engine), with its message.
\<close>

datatype want = Score | Loc | Rel

definition name_priority :: "want \<Rightarrow> string list" where
  "name_priority want =
     (case want of
        Score \<Rightarrow> [''score'', ''global'', ''integrity'', ''sigmoid'']
      | Loc \<Rightarrow> [''map'', ''mask'', ''loc'', ''pred'', ''tamper'']
      | Rel \<Rightarrow> [''reliab'', ''conf'', ''uncert''])"

text \<open>The loop of \<^verbatim>\<open>name_rank\<close> over \<^verbatim>\<open>enumerate(name_priority)\<close>, from index \<open>i\<close> on.\<close>

fun rank_from :: "nat \<Rightarrow> string list \<Rightarrow> string \<Rightarrow> nat" where
  "rank_from i [] lk = 999"
| "rank_from i (token # tokens) lk = (if str_in token lk then i else rank_from (Suc i) tokens lk)"

definition name_rank :: "want \<Rightarrow> string \<Rightarrow> nat" where
  "name_rank want k = rank_from 0 (name_priority want) (lower k)"

text \<open>
  The planes the picker takes out of a three-dimensional array: \<^verbatim>\<open>arr[0]\<close> and
  \<^verbatim>\<open>arr[-1]\<close> of a \<open>(C, H, W)\<close> array, and \<^verbatim>\<open>arr[..., 0]\<close> of an \<open>(H, W, C)\<close> array.
\<close>

definition first_plane :: "nat \<Rightarrow> nat \<Rightarrow> ndarray \<Rightarrow> ndarray" where
  "first_plane H W arr = \<lparr>shape = [H, W], data = take (H * W) (data arr)\<rparr>"

definition last_plane :: "nat \<Rightarrow> nat \<Rightarrow> nat \<Rightarrow> ndarray \<Rightarrow> ndarray" where
  "last_plane C H W arr = \<lparr>shape = [H, W], data = take (H * W) (drop ((C - 1) * (H * W)) (data arr))\<rparr>"

definition channel0 :: "nat \<Rightarrow> nat \<Rightarrow> nat \<Rightarrow> ndarray \<Rightarrow> ndarray" where
  "channel0 H W C arr = \<lparr>shape = [H, W], data = map (\<lambda>k. data arr ! (k * C)) [0..<H * W]\<rparr>"

text \<open>
  The body of the loop over the keys (the shape hints): whether the array is a candidate
  for the role, and as which array. \<^verbatim>\<open>arr[-1]\<close> on a \<open>(0, H, W)\<close> array and
  \<^verbatim>\<open>arr[..., 0]\<close> on an \<open>(H, W, 0)\<close> array raise.
\<close>

definition shape_hint :: "want \<Rightarrow> nat \<Rightarrow> nat \<Rightarrow> ndarray \<Rightarrow> py_error + ndarray option" where
  "shape_hint want H W arr =
     (if want = Score then (if size_of arr = 1 then Inr (Some arr) else Inr None)
      else (case shape arr of
          [a, b] \<Rightarrow> if a = H \<and> b = W then Inr (Some arr) else Inr None
        | [a, b, c] \<Rightarrow>
            if (b, c) = (H, W) then
              (if a = 1 then Inr (Some (first_plane H W arr))
               else if a = 0 then Inl IndexError
               else Inr (Some (last_plane a H W arr)))
            else if (a, b) = (H, W) then
              (if c = 0 then Inl IndexError else Inr (Some (channel0 H W c arr)))
            else Inr None
        | _ \<Rightarrow> Inr None))"

fun collect :: "want \<Rightarrow> nat \<Rightarrow> nat \<Rightarrow> npz \<Rightarrow> py_error + (nat \<times> string \<times> ndarray) list" where
  "collect want H W [] = Inr []"
| "collect want H W ((k, arr) # rest) =
     (case shape_hint want H W arr of
        Inl e \<Rightarrow> Inl e
      | Inr c \<Rightarrow>
          (case collect want H W rest of
             Inl e \<Rightarrow> Inl e
           | Inr cand \<Rightarrow>
               Inr ((case c of None \<Rightarrow> [] | Some a \<Rightarrow> [(name_rank want k, k, a)]) @ cand)))"

text \<open>
  The cast \<^verbatim>\<open>astype(np.float32)\<close> of the picked array rounds every entry to the nearest
  value of IEEE binary32, a tie going to the even significand. \<open>round_even\<close> is the
  rounding of a real to an integer with that tie rule, \<open>f32_exp\<close> the binary exponent of
  the value (not below -126, where the subnormal values start), and \<open>f32\<close> the rounding to
  24 significant bits at that exponent. An entry whose rounding has a magnitude of
  \<open>2 ^ 128\<close> or more becomes infinite in NumPy; \<open>f32_finite\<close> says that it does not.
  \<^verbatim>\<open>np.ndarray.astype\<close> is library code; these definitions follow IEEE 754.
\<close>

definition round_even :: "real \<Rightarrow> int" where
  "round_even r =
     (let f = \<lfloor>r\<rfloor>; d = r - of_int f
      in if d < 1 / 2 then f else if 1 / 2 < d then f + 1 else if even f then f else f + 1)"

definition f32_exp :: "real \<Rightarrow> int" where
  "f32_exp x = max (- 126) \<lfloor>log 2 \<bar>x\<bar>\<rfloor>"

definition f32 :: "real \<Rightarrow> real" where
  "f32 x =
     (if x = 0 then 0
      else of_int (round_even (x * 2 powi (23 - f32_exp x))) * 2 powi (f32_exp x - 23))"


definition astype_f32 :: "ndarray \<Rightarrow> ndarray" where
  "astype_f32 a = a\<lparr>data := map f32 (data a)\<rparr>"

text \<open>
  \<^verbatim>\<open>_pick_array\<close>. Python's \<^verbatim>\<open>list.sort\<close> is stable, as \<open>sort_key\<close> is.
\<close>

definition pick_array :: "npz \<Rightarrow> want \<Rightarrow> nat \<Rightarrow> nat \<Rightarrow> py_error + ndarray option" where
  "pick_array npz want H W =
     (case collect want H W npz of
        Inl e \<Rightarrow> Inl e
      | Inr cand \<Rightarrow>
          (case sort_key fst cand of
             [] \<Rightarrow> Inr None
           | c # _ \<Rightarrow> Inr (Some (astype_f32 (snd (snd c))))))"

text \<open>
  Numpy's percentile of the flattened array with linear interpolation: on the sorted
  entries \<open>s\<close> of length \<open>n\<close> the virtual index is \<open>(n - 1) * q / 100\<close>, and the result lies
  between the entries around it. \<^verbatim>\<open>np.percentile\<close> is library code; this definition follows
  its documentation. On an empty array NumPy returns NaN, the model \<open>0\<close>; no entry is
  there to normalise then.
\<close>

definition percentile :: "real list \<Rightarrow> nat \<Rightarrow> real" where
  "percentile xs q =
     (if xs = [] then 0
      else (let s = sort xs; n = length s; k = (n - 1) * q;
                i = k div 100; j = min (i + 1) (n - 1); g = real (k mod 100) / 100
            in s ! i + (s ! j - s ! i) * g))"

text \<open>
  \<^verbatim>\<open>norm01\<close> starts with the same cast; its arguments are arrays of binary32 values
  already (a picked array, or the all-ones map), which the cast leaves as they are. Its
  arithmetic is that of the real numbers.
\<close>

definition clip01 :: "real \<Rightarrow> real" where
  "clip01 v = min (max v 0) 1"

definition norm01 :: "ndarray \<Rightarrow> ndarray" where
  "norm01 m =
     (let lo = percentile (data m) 1; hi = percentile (data m) 99
      in if hi - lo < 1 / 10 ^ 6 then m\<lparr>data := map clip01 (data m)\<rparr>
         else m\<lparr>data := map (\<lambda>v. clip01 ((v - lo) / (hi - lo))) (data m)\<rparr>)"

definition ones :: "nat \<Rightarrow> nat \<Rightarrow> ndarray" where
  "ones H W = \<lparr>shape = [H, W], data = replicate (H * W) 1\<rparr>"

text \<open>The last resort for the score: the first entry of the bundle with one element.\<close>

definition last_resort :: "npz \<Rightarrow> ndarray option" where
  "last_resort npz = (case filter (\<lambda>(k, a). size_of a = 1) npz of [] \<Rightarrow> None | (k, a) # _ \<Rightarrow> Some a)"

record outputs =
  out_score :: real
  out_loc :: ndarray
  out_rel :: ndarray

text \<open>
  \<^verbatim>\<open>load_trufor_outputs\<close>, on the bundle read from \<open>path\<close>. \<^verbatim>\<open>score_arr.reshape(-1)[0]\<close> is
  the first entry of the score array, and \<^verbatim>\<open>np.array(score, dtype=np.float32)\<close> rounds it
  to binary32 (once more, when the picker chose it).
\<close>

definition load_trufor_outputs :: "string \<Rightarrow> npz \<Rightarrow> nat \<times> nat \<Rightarrow> py_error + outputs" where
  "load_trufor_outputs path npz img_shape =
     (case img_shape of (H, W) \<Rightarrow>
      (case pick_array npz Score H W of Inl e \<Rightarrow> Inl e | Inr score_arr \<Rightarrow>
      (case pick_array npz Loc H W of Inl e \<Rightarrow> Inl e | Inr loc \<Rightarrow>
      (case pick_array npz Rel H W of Inl e \<Rightarrow> Inl e | Inr rel \<Rightarrow>
        (let score_arr' = (case score_arr of None \<Rightarrow> last_resort npz | Some a \<Rightarrow> Some a)
         in (case (score_arr', loc) of
               (Some s, Some l) \<Rightarrow>
                 (case data s of
                    [] \<Rightarrow> Inl IndexError
                  | v # _ \<Rightarrow>
                      (let rel' = (case rel of None \<Rightarrow> ones H W | Some r \<Rightarrow> r)
                       in Inr \<lparr>out_score = f32 v, out_loc = norm01 l, out_rel = norm01 rel'\<rparr>))
             | _ \<Rightarrow> Inl (KeyError path (map fst npz))))))))"

text \<open>
  What the specification calls a role that can be resolved: the bundle has an entry with
  one element (score), or an entry of one of the three accepted map shapes
  (localization and reliability).
\<close>

definition map_shaped :: "nat \<Rightarrow> nat \<Rightarrow> ndarray \<Rightarrow> bool" where
  "map_shaped H W a =
     (case shape a of
        [p, q] \<Rightarrow> p = H \<and> q = W
      | [p, q, r] \<Rightarrow> (q = H \<and> r = W) \<or> (p = H \<and> q = W)
      | _ \<Rightarrow> False)"

definition has_score :: "npz \<Rightarrow> bool" where
  "has_score npz = (\<exists>(k, a)\<in>set npz. size_of a = 1)"

definition has_map :: "nat \<Rightarrow> nat \<Rightarrow> npz \<Rightarrow> bool" where
  "has_map H W npz = (\<exists>(k, a)\<in>set npz. map_shaped H W a)"

text \<open>An entry on which the picker of a map raises: a map-shaped array with no channel.\<close>

definition no_channel :: "nat \<Rightarrow> nat \<Rightarrow> ndarray \<Rightarrow> bool" where
  "no_channel H W a =
     (case shape a of
        [p, q, r] \<Rightarrow> (q = H \<and> r = W \<and> p = 0) \<or> (\<not> (q = H \<and> r = W) \<and> p = H \<and> q = W \<and> r = 0)
      | _ \<Rightarrow> False)"

definition wf_npz :: "nat \<Rightarrow> nat \<Rightarrow> npz \<Rightarrow> bool" where
  "wf_npz H W npz = (\<forall>(k, a)\<in>set npz. wf_array a \<and> \<not> no_channel H W a)"

subsection \<open>The OCR region extractor\<close>

text \<open>
  One row of the table \<^verbatim>\<open>pytesseract.image_to_data\<close> returns (the dictionary of columns,
  read at one index). \<open>tok_text\<close> is \<open>None\<close> for a missing text, which
  \<^verbatim>\<open>(ocr["text"][i] or "")\<close> turns into the empty string; \<open>tok_conf\<close> is \<open>None\<close> for a
  confidence that \<^verbatim>\<open>float\<close> rejects, which the \<^verbatim>\<open>except\<close> branch turns into \<open>-1\<close>.
\<close>

record ocr_token =
  tok_text :: "ustring option"
  tok_conf :: "real option"
  tok_left :: int
  tok_top :: int
  tok_width :: int
  tok_height :: int
  tok_block_num :: int
  tok_par_num :: int
  tok_line_num :: int

text \<open>The dictionary a line is accumulated in.\<close>

record line_acc =
  ln_x1 :: int
  ln_y1 :: int
  ln_x2 :: int
  ln_y2 :: int
  ln_words :: "ustring list"
  ln_conf_sum :: real
  ln_conf_n :: nat

text \<open>
  \<^verbatim>\<open>lines\<close> is a Python dictionary, which keeps its keys in the order of their first
  insertion: an association list with distinct keys. \<open>dict_set\<close> is
  \<^verbatim>\<open>lines[key] = v\<close>: a known key keeps its place, a new key goes to the end.
\<close>

type_synonym line_key = "int \<times> int \<times> int"

fun dict_set :: "'k \<Rightarrow> 'v \<Rightarrow> ('k \<times> 'v) list \<Rightarrow> ('k \<times> 'v) list" where
  "dict_set k v [] = [(k, v)]"
| "dict_set k v ((k', v') # kvs) = (if k' = k then (k, v) # kvs else (k', v') # dict_set k v kvs)"

definition token_text :: "ocr_token \<Rightarrow> ustring" where
  "token_text t = strip (case tok_text t of None \<Rightarrow> [] | Some s \<Rightarrow> s)"

definition token_conf :: "ocr_token \<Rightarrow> real" where
  "token_conf t = (case tok_conf t of None \<Rightarrow> - 1 | Some c \<Rightarrow> c)"

text \<open>The body of the loop over the tokens.\<close>

definition ocr_step :: "real \<Rightarrow> int \<Rightarrow> (line_key \<times> line_acc) list \<Rightarrow> ocr_token \<Rightarrow> (line_key \<times> line_acc) list" where
  "ocr_step min_conf min_size lines t =
     (let txt = token_text t in
      if txt = [] then lines
      else (let conf = token_conf t in
        if conf < min_conf then lines
        else (let x = tok_left t; y = tok_top t; w = tok_width t; h = tok_height t in
          if w < min_size \<or> h < min_size then lines
          else (let key = (tok_block_num t, tok_par_num t, tok_line_num t) in
            (case map_of lines key of
               None \<Rightarrow>
                 dict_set key
                   \<lparr>ln_x1 = x, ln_y1 = y, ln_x2 = x + w, ln_y2 = y + h, ln_words = [txt],
                    ln_conf_sum = conf, ln_conf_n = 1\<rparr> lines
             | Some d \<Rightarrow>
                 dict_set key
                   \<lparr>ln_x1 = min (ln_x1 d) x, ln_y1 = min (ln_y1 d) y,
                    ln_x2 = max (ln_x2 d) (x + w), ln_y2 = max (ln_y2 d) (y + h),
                    ln_words = ln_words d @ [txt],
                    ln_conf_sum = ln_conf_sum d + conf, ln_conf_n = ln_conf_n d + 1\<rparr> lines)))))"

text \<open>The body of the loop over \<^verbatim>\<open>lines.values()\<close>: the box of a line, if it is kept.\<close>

definition line_box :: "int \<Rightarrow> line_acc \<Rightarrow> Box option" where
  "line_box min_size d =
     (let txt = strip (join_sp (ln_words d)) in
      if \<not> list_ex py_isdigit txt then None
      else (let w = ln_x2 d - ln_x1 d; h = ln_y2 d - ln_y1 d in
        if w < min_size \<or> h < min_size then None
        else Some \<lparr>box_x = ln_x1 d, box_y = ln_y1 d, box_w = w, box_h = h, box_text = txt,
                   box_conf = ln_conf_sum d / real (max 1 (ln_conf_n d))\<rparr>))"

definition group_lines :: "real \<Rightarrow> int \<Rightarrow> ocr_token list \<Rightarrow> (line_key \<times> line_acc) list" where
  "group_lines min_conf min_size toks = foldl (ocr_step min_conf min_size) [] toks"

text \<open>
  \<^verbatim>\<open>ocr_line_boxes\<close>, on what the OCR engine returned for the image: its table, or the
  exception it raised (which nothing in the function catches).
\<close>

definition ocr_line_boxes :: "py_error + ocr_token list \<Rightarrow> real \<Rightarrow> int \<Rightarrow> py_error + Box list" where
  "ocr_line_boxes ocr min_conf min_size =
     (case ocr of
        Inl e \<Rightarrow> Inl e
      | Inr toks \<Rightarrow> Inr (List.map_filter (line_box min_size) (map snd (group_lines min_conf min_size toks))))"

text \<open>
  The line-grouping identity of a token, and the three filters of the loop over the tokens:
  a token is kept when its stripped text is not empty, its confidence is at least
  \<open>min_conf\<close>, and its own box is at least \<open>min_size\<close> wide and high.
\<close>

definition line_of :: "ocr_token \<Rightarrow> line_key" where
  "line_of t = (tok_block_num t, tok_par_num t, tok_line_num t)"

definition kept :: "real \<Rightarrow> int \<Rightarrow> ocr_token \<Rightarrow> bool" where
  "kept min_conf min_size t =
     (token_text t \<noteq> [] \<and> min_conf \<le> token_conf t \<and> min_size \<le> tok_width t \<and> min_size \<le> tok_height t)"

text \<open>
  The extractor as the claims describe it, to be compared with the loops above. The lines
  of a page are the keys of its kept tokens, in the order of their first kept token; the
  members of a line are its kept tokens, in the order of the page; the merged text of
  some tokens is their stripped texts joined by spaces; the region of some tokens is the
  union of their boxes, with their merged text and their mean confidence.
\<close>

definition line_keys :: "real \<Rightarrow> int \<Rightarrow> ocr_token list \<Rightarrow> line_key list" where
  "line_keys min_conf min_size toks =
     rev (remdups (rev (map line_of (filter (kept min_conf min_size) toks))))"

definition members :: "real \<Rightarrow> int \<Rightarrow> line_key \<Rightarrow> ocr_token list \<Rightarrow> ocr_token list" where
  "members min_conf min_size key toks =
     filter (\<lambda>t. kept min_conf min_size t \<and> line_of t = key) toks"

definition merged_text :: "ocr_token list \<Rightarrow> ustring" where
  "merged_text ts = join_sp (map token_text ts)"

definition union_x1 :: "ocr_token list \<Rightarrow> int" where
  "union_x1 ts = Min (set (map tok_left ts))"

definition union_y1 :: "ocr_token list \<Rightarrow> int" where
  "union_y1 ts = Min (set (map tok_top ts))"

definition union_x2 :: "ocr_token list \<Rightarrow> int" where
  "union_x2 ts = Max (set (map (\<lambda>t. tok_left t + tok_width t) ts))"

definition union_y2 :: "ocr_token list \<Rightarrow> int" where
  "union_y2 ts = Max (set (map (\<lambda>t. tok_top t + tok_height t) ts))"

definition line_region :: "ocr_token list \<Rightarrow> Box" where
  "line_region ts =
     \<lparr>box_x = union_x1 ts, box_y = union_y1 ts,
      box_w = union_x2 ts - union_x1 ts, box_h = union_y2 ts - union_y1 ts,
      box_text = merged_text ts,
      box_conf = sum_list (map token_conf ts) / real (length ts)\<rparr>"

text \<open>The dictionary of a line whose members are \<open>ts\<close>.\<close>

definition line_acc_of :: "ocr_token list \<Rightarrow> line_acc" where
  "line_acc_of ts =
     \<lparr>ln_x1 = union_x1 ts, ln_y1 = union_y1 ts, ln_x2 = union_x2 ts, ln_y2 = union_y2 ts,
      ln_words = map token_text ts, ln_conf_sum = sum_list (map token_conf ts),
      ln_conf_n = length ts\<rparr>"

subsection \<open>The decision and the batch loop\<close>

datatype status = StatusOk | StatusFlagged | StatusError

text \<open>The dictionary \<^verbatim>\<open>analyze_image\<close> returns after an analysis.\<close>

record analysis =
  status :: status
  error_msg :: string
  trufor_score :: real
  max_roi_score :: real
  n_rois :: nat
  best_roi :: "Box option"
  npz_file :: string

text \<open>
  \<open>Unreadable\<close> is the dictionary \<^verbatim>\<open>{"status": "error", "error": "Could not read image"}\<close>.
\<close>

datatype result = Unreadable | Analysed analysis

text \<open>The loop over the regions, on the pair \<^verbatim>\<open>(max_roi, best_roi)\<close>.\<close>

definition roi_step :: "(Box \<Rightarrow> real) \<Rightarrow> real \<times> Box option \<Rightarrow> Box \<Rightarrow> real \<times> Box option" where
  "roi_step score_of acc roi =
     (case acc of (max_roi, best) \<Rightarrow>
        (let s = score_of roi in if s > max_roi then (s, Some roi) else (max_roi, best)))"

definition roi_loop :: "(Box \<Rightarrow> real) \<Rightarrow> Box list \<Rightarrow> real \<times> Box option" where
  "roi_loop score_of rois = foldl (roi_step score_of) (0, None) rois"

text \<open>
  \<^verbatim>\<open>analyze_image\<close>. Its collaborators are inputs: \<open>img\<close> is what \<^verbatim>\<open>cv2.imread\<close> returned
  (\<open>None\<close>, or an image of \<open>H\<close> rows and \<open>W\<close> columns), \<open>trufor\<close> is the outcome of
  \<^verbatim>\<open>run_trufor\<close> and \<^verbatim>\<open>np.load\<close> (the path and the bundle, or the exception raised), \<open>ocr\<close> the
  outcome of the OCR engine on the image.
\<close>

definition analyze_image ::
  "(nat \<times> nat) option \<Rightarrow> py_error + string \<times> npz \<Rightarrow> py_error + ocr_token list \<Rightarrow>
   real \<Rightarrow> int \<Rightarrow> real \<Rightarrow> real \<Rightarrow> real \<Rightarrow> py_error + result" where
  "analyze_image img trufor ocr min_conf min_size global_thresh roi_thresh rel_min =
     (case img of
        None \<Rightarrow> Inr Unreadable
      | Some (H, W) \<Rightarrow>
      (case trufor of Inl e \<Rightarrow> Inl e | Inr (path, npz) \<Rightarrow>
      (case load_trufor_outputs path npz (H, W) of Inl e \<Rightarrow> Inl e | Inr outs \<Rightarrow>
      (case ocr_line_boxes ocr min_conf min_size of Inl e \<Rightarrow> Inl e | Inr rois \<Rightarrow>
      (case roi_loop (\<lambda>roi. roi_anomaly_score (out_loc outs) (out_rel outs) roi rel_min) rois of
         (max_roi, best) \<Rightarrow>
           (let flagged = (out_score outs \<ge> global_thresh \<or> max_roi \<ge> roi_thresh)
            in Inr (Analysed
                 \<lparr>status = (if flagged then StatusFlagged else StatusOk), error_msg = [],
                  trufor_score = out_score outs, max_roi_score = max_roi,
                  n_rois = length rois, best_roi = best, npz_file = path\<rparr>)))))))"

text \<open>
  One row of the report: the body of the loop of \<^verbatim>\<open>main\<close> for one image path. A score that
  is NaN in the report is \<open>None\<close>; \<open>row_crop\<close> is the region \<^verbatim>\<open>save_crop\<close> is called on,
  \<open>None\<close> when no crop is written (\<^verbatim>\<open>crop_path\<close> stays empty). The error text of a row is a
  fixed message or \<^verbatim>\<open>str(e)\<close> of the exception caught.
\<close>

datatype error_text = Message string | Raised py_error

record report_row =
  row_status :: status
  row_error :: error_text
  row_trufor_score :: "real option"
  row_max_roi_score :: "real option"
  row_n_rois :: nat
  row_best_roi :: "Box option"
  row_crop :: "Box option"

definition error_row :: "error_text \<Rightarrow> report_row" where
  "error_row e =
     \<lparr>row_status = StatusError, row_error = e, row_trufor_score = None,
      row_max_roi_score = None, row_n_rois = 0, row_best_roi = None, row_crop = None\<rparr>"

definition process_image ::
  "bool \<Rightarrow> (nat \<times> nat) option \<Rightarrow> py_error + string \<times> npz \<Rightarrow> py_error + ocr_token list \<Rightarrow>
   real \<Rightarrow> int \<Rightarrow> real \<Rightarrow> real \<Rightarrow> real \<Rightarrow> report_row" where
  "process_image file_exists img trufor ocr min_conf min_size global_thresh roi_thresh rel_min =
     (if \<not> file_exists then error_row (Message ''File not found'')
      else (case analyze_image img trufor ocr min_conf min_size global_thresh roi_thresh rel_min of
          Inl e \<Rightarrow> error_row (Raised e)
        | Inr Unreadable \<Rightarrow> error_row (Message ''Could not read image'')
        | Inr (Analysed res) \<Rightarrow>
            \<lparr>row_status = status res, row_error = Message (error_msg res),
             row_trufor_score = Some (trufor_score res),
             row_max_roi_score = Some (max_roi_score res),
             row_n_rois = n_rois res, row_best_roi = best_roi res,
             row_crop = (if status res = StatusFlagged \<and> best_roi res \<noteq> None
                         then best_roi res else None)\<rparr>))"

subsection \<open>Example inputs\<close>

text \<open>
  A localization map and a reliability map of one row and two columns, and a region whose
  box lies partly outside of the image.
\<close>

definition ex_loc :: ndarray where
  "ex_loc = \<lparr>shape = [1, 2], data = [1 / 2, 1]\<rparr>"

definition ex_rel :: ndarray where
  "ex_rel = \<lparr>shape = [1, 2], data = [1, 0]\<rparr>"

definition ex_roi :: Box where
  "ex_roi = \<lparr>box_x = - 5, box_y = 7, box_w = 100, box_h = 0, box_text = ustr ''7h 35m'', box_conf = 90\<rparr>"

text \<open>
  A bundle with a score of 0.3 and one map of two rows and two columns, for an image of
  that size; the map the resolver makes of it; an OCR token two pixels wide and one pixel
  high at the left edge of a row of the image, and the box of a line made of such a token.
\<close>

definition ex_npz :: npz where
  "ex_npz = [(''score'', \<lparr>shape = [1], data = [3 / 10]\<rparr>),
             (''map'', \<lparr>shape = [2, 2], data = [0, 0, 1, 1]\<rparr>)]"

definition ex_map :: ndarray where
  "ex_map = \<lparr>shape = [2, 2], data = [0, 0, 1, 1]\<rparr>"

definition ex_token :: "string \<Rightarrow> int \<Rightarrow> int \<Rightarrow> ocr_token" where
  "ex_token txt ty lnum =
     \<lparr>tok_text = Some (ustr txt), tok_conf = Some 90, tok_left = 0, tok_top = ty, tok_width = 2,
      tok_height = 1, tok_block_num = 1, tok_par_num = 1, tok_line_num = lnum\<rparr>"

definition ex_box :: "string \<Rightarrow> int \<Rightarrow> Box" where
  "ex_box txt ty = \<lparr>box_x = 0, box_y = ty, box_w = 2, box_h = 1, box_text = ustr txt, box_conf = 90\<rparr>"

text \<open>
  Three more bundles for the image of two rows and two columns: one with a score and no
  map, one whose only entry is a map (under the key of a score), and one whose score
  entry holds the value 5.
\<close>

definition ex_npz_score_only :: npz where
  "ex_npz_score_only = [(''score'', \<lparr>shape = [1], data = [3 / 10]\<rparr>)]"

definition ex_npz_map_only :: npz where
  "ex_npz_map_only = [(''score'', \<lparr>shape = [2, 2], data = [0, 0, 1, 1]\<rparr>)]"


text \<open>A token of confidence 90, 20 pixels high, on line (1, 1, 1) of the page.\<close>

definition ex_word :: "string \<Rightarrow> int \<Rightarrow> int \<Rightarrow> ocr_token" where
  "ex_word txt x w =
     \<lparr>tok_text = Some (ustr txt), tok_conf = Some 90, tok_left = x, tok_top = 100, tok_width = w,
      tok_height = 20, tok_block_num = 1, tok_par_num = 1, tok_line_num = 1\<rparr>"

text \<open>
  A token 20 pixels high on the line \<open>lnum\<close> of block 1, paragraph 1, and a page of two
  lines whose tokens alternate: on line 1 ``Screen'', ``Time'' and a ``1'' only 5 pixels
  wide; on line 2 ``7h'', a ``9'' of confidence 10, a blank text and ``35m''.
\<close>

definition ex_tok :: "string \<Rightarrow> int \<Rightarrow> int \<Rightarrow> int \<Rightarrow> real \<Rightarrow> ocr_token" where
  "ex_tok txt x w lnum c =
     \<lparr>tok_text = Some (ustr txt), tok_conf = Some c, tok_left = x, tok_top = 40 * lnum,
      tok_width = w, tok_height = 20, tok_block_num = 1, tok_par_num = 1, tok_line_num = lnum\<rparr>"

definition ex_page :: "ocr_token list" where
  "ex_page =
     [ex_tok ''Screen'' 0 60 1 90, ex_tok ''7h'' 0 20 2 90, ex_tok ''Time'' 70 40 1 90,
      ex_tok ''9'' 30 20 2 10, ex_tok '' '' 30 20 2 90, ex_tok ''35m'' 30 20 2 90,
      ex_tok ''1'' 120 5 1 90]"

text \<open>
  A map of 3 rows and 17 columns with the entries 0, 2/3 and then 49 times 1: all its
  values lie between 0 and 1, and its least and greatest values are 0 and 1.
\<close>

definition ex_stretch :: ndarray where
  "ex_stretch = \<lparr>shape = [3, 17], data = 0 # 2 / 3 # replicate 49 1\<rparr>"

section \<open>Properties\<close>

subsection \<open>Text\<close>

lemmas text_eval =
  ustr_def strip_def py_isspace_def py_isdigit_def in_ranges_def digit_ranges_def space_ranges_def

lemma py_isspace_latin1:
  "c < 256 \<Longrightarrow> py_isspace c \<longleftrightarrow> (9 \<le> c \<and> c \<le> 13) \<or> (28 \<le> c \<and> c \<le> 32) \<or> c = 133 \<or> c = 160"
  by (simp add: py_isspace_def in_ranges_def space_ranges_def) arith

lemma py_isdigit_latin1:
  "c < 256 \<Longrightarrow> py_isdigit c \<longleftrightarrow> (48 \<le> c \<and> c \<le> 57) \<or> c = 178 \<or> c = 179 \<or> c = 185"
  by (simp add: py_isdigit_def in_ranges_def digit_ranges_def) arith

lemma text_ex:
  "strip (ustr ''7h'' @ [160]) = ustr ''7h''" "strip [160] = []"
  "py_isdigit 178" "list_ex py_isdigit (ustr ''m'' @ [178])" "py_isdigit 1637" "\<not> py_isdigit 215"
  by (simp_all add: text_eval)

subsection \<open>The cast to binary32\<close>

lemma round_even_of_int: "round_even (of_int k) = k"
  by (simp add: round_even_def)

lemma round_even_le: "r \<le> of_int N \<Longrightarrow> round_even r \<le> N"
proof -
  assume a: "r \<le> of_int N"
  then have f: "\<lfloor>r\<rfloor> \<le> N" by (simp add: floor_le_iff)
  show ?thesis
  proof (cases "\<lfloor>r\<rfloor> = N")
    case True
    then have "of_int N \<le> r" by (metis of_int_floor_le)
    with a have "r = of_int N" by simp
    then show ?thesis by (simp add: round_even_of_int)
  next
    case False
    with f have "\<lfloor>r\<rfloor> + 1 \<le> N" by simp
    with f show ?thesis by (simp add: round_even_def Let_def)
  qed
qed

lemma round_even_ge: "of_int N \<le> r \<Longrightarrow> N \<le> round_even r"
proof -
  assume "of_int N \<le> r"
  then have "N \<le> \<lfloor>r\<rfloor>" by (simp add: le_floor_iff)
  then show ?thesis by (simp add: round_even_def Let_def)
qed

lemma pow2_cancel: "(2 :: real) powi (23 - e) * 2 powi (e - 23) = 1"
proof -
  have "(2 :: real) powi (23 - e) * 2 powi (e - 23) = 2 powi ((23 - e) + (e - 23))"
    by (subst power_int_add) simp_all
  then show ?thesis by simp
qed

lemma f32_exact:
  assumes "x * 2 powi (23 - f32_exp x) = of_int k"
  shows "f32 x = x"
proof (cases "x = 0")
  case True
  then show ?thesis by (simp add: f32_def)
next
  case False
  have "f32 x = x * 2 powi (23 - f32_exp x) * 2 powi (f32_exp x - 23)"
    using False by (simp add: f32_def assms round_even_of_int)
  also have "\<dots> = x * (2 powi (23 - f32_exp x) * 2 powi (f32_exp x - 23))"
    by (simp only: mult.assoc)
  also have "\<dots> = x" by (simp only: pow2_cancel mult_1_right)
  finally show ?thesis .
qed

lemma f32_exp_eqI:
  assumes "2 powi k \<le> \<bar>x\<bar>" and "\<bar>x\<bar> < 2 powi (k + 1)" and "- 126 \<le> k"
  shows "f32_exp x = k"
proof -
  have pos: "0 < \<bar>x\<bar>" using assms(1) by (smt (verit) zero_less_power_int)
  have k1: "(2 :: real) powr (real_of_int k + 1) = 2 powi (k + 1)"
    using powr_real_of_int'[of 2 "k + 1"] by simp
  have k0: "(2 :: real) powr real_of_int k = 2 powi k"
    using powr_real_of_int'[of 2 k] by simp
  have "\<lfloor>log 2 \<bar>x\<bar>\<rfloor> = k"
    using assms(1,2) pos by (subst floor_log_eq_powr_iff) (simp_all add: k0 k1)
  with assms(3) show ?thesis by (simp add: f32_exp_def)
qed

lemma f32_exp_floor:
  assumes "x \<noteq> 0"
  shows "\<bar>x\<bar> < 2 powi (f32_exp x + 1) \<and> (- 126 < f32_exp x \<longrightarrow> 2 powi f32_exp x \<le> \<bar>x\<bar>)"
proof -
  define k where "k = \<lfloor>log 2 \<bar>x\<bar>\<rfloor>"
  have pos: "0 < \<bar>x\<bar>" using assms by simp
  have k1: "(2 :: real) powr (real_of_int k + 1) = 2 powi (k + 1)"
    using powr_real_of_int'[of 2 "k + 1"] by simp
  have k0: "(2 :: real) powr real_of_int k = 2 powi k"
    using powr_real_of_int'[of 2 k] by simp
  have "\<lfloor>log 2 \<bar>x\<bar>\<rfloor> = k" by (simp add: k_def)
  then have b: "2 powi k \<le> \<bar>x\<bar>" "\<bar>x\<bar> < 2 powi (k + 1)"
    using pos by (simp_all add: floor_log_eq_powr_iff k0 k1)
  have e: "f32_exp x = max (- 126) k" by (simp add: f32_exp_def k_def)
  have "(2 :: real) powi (k + 1) \<le> 2 powi (f32_exp x + 1)"
    by (rule power_int_increasing) (simp_all add: e)
  with b(2) have "\<bar>x\<bar> < 2 powi (f32_exp x + 1)" by simp
  moreover have "2 powi f32_exp x \<le> \<bar>x\<bar>" if "- 126 < f32_exp x"
  proof -
    from that e have "f32_exp x = k" by (simp add: max_def split: if_splits)
    with b(1) show ?thesis by simp
  qed
  ultimately show ?thesis by simp
qed

lemma f32_exp_subnormal:
  assumes "x \<noteq> 0" and "\<bar>x\<bar> < 2 powi (- 125)"
  shows "f32_exp x = - 126"
proof (rule ccontr)
  assume n: "f32_exp x \<noteq> - 126"
  have "- 126 \<le> f32_exp x" by (simp add: f32_exp_def)
  with n have g: "- 126 < f32_exp x" by simp
  with f32_exp_floor[OF assms(1)] have "2 powi f32_exp x \<le> \<bar>x\<bar>" by simp
  moreover have "(2 :: real) powi (- 125) \<le> 2 powi f32_exp x"
    using g by (intro power_int_increasing) simp_all
  ultimately show False using assms(2) by simp
qed

lemma pow2_shift: "(2 :: real) powi (e - 23) * 2 powi (23 - e) = 1"
  using pow2_cancel[of e] by (simp add: mult.commute)

lemma f32_idem: "f32 (f32 x) = f32 x"
proof (cases "x = 0")
  case True
  then show ?thesis by (simp add: f32_def)
next
  case x: False
  define e where "e = f32_exp x"
  define m where "m = round_even (x * 2 powi (23 - e))"
  define y where "y = of_int m * (2 :: real) powi (e - 23)"
  have y: "f32 x = y" using x by (simp add: f32_def e_def m_def y_def)
  have p: "0 < (2 :: real) powi (23 - e)" by (simp add: zero_less_power_int)
  have q: "0 < (2 :: real) powi (e - 23)" by (simp add: zero_less_power_int)
  have s: "(2 :: real) powi (e + 1) * 2 powi (23 - e) = 2 ^ 24"
  proof -
    have "(2 :: real) powi (e + 1) * 2 powi (23 - e) = 2 powi ((e + 1) + (23 - e))"
      by (subst power_int_add) simp_all
    then show ?thesis by simp
  qed
  have s0: "(2 :: real) powi e * 2 powi (23 - e) = 2 ^ 23"
  proof -
    have "(2 :: real) powi e * 2 powi (23 - e) = 2 powi (e + (23 - e))"
      by (subst power_int_add) simp_all
    then show ?thesis by simp
  qed
  from f32_exp_floor[OF x] have ub: "\<bar>x\<bar> < 2 powi (e + 1)"
    and lb: "- 126 < e \<longrightarrow> 2 powi e \<le> \<bar>x\<bar>" by (simp_all add: e_def)
  have a: "\<bar>x * 2 powi (23 - e)\<bar> = \<bar>x\<bar> * 2 powi (23 - e)"
    using p by (simp add: abs_mult)
  have "\<bar>x\<bar> * 2 powi (23 - e) < 2 powi (e + 1) * 2 powi (23 - e)"
    using ub p by (rule mult_strict_right_mono)
  then have au: "\<bar>x * 2 powi (23 - e)\<bar> < 2 ^ 24" by (simp only: a s)
  have "x * 2 powi (23 - e) \<le> of_int (2 ^ 24)" using au by simp
  then have mu: "m \<le> 2 ^ 24" unfolding m_def by (rule round_even_le)
  have "of_int (- (2 ^ 24)) \<le> x * 2 powi (23 - e)" using au by simp
  then have ml: "- (2 ^ 24) \<le> m" unfolding m_def by (rule round_even_ge)
  have ge: "- 126 \<le> e" by (simp add: e_def f32_exp_def)
  show ?thesis
  proof (cases "m = 0")
    case True
    then have "y = 0" by (simp add: y_def)
    then have "f32 y = y" by (simp add: f32_def)
    then show ?thesis by (simp only: y)
  next
    case m0: False
    have ay: "\<bar>y\<bar> = of_int \<bar>m\<bar> * 2 powi (e - 23)" using q by (simp add: y_def abs_mult)
    have y0: "y \<noteq> 0" using m0 q by (simp add: y_def)
    have t: "(2 :: real) ^ 24 * 2 powi (e - 23) = 2 powi (e + 1)"
    proof -
      have "(2 :: real) powi 24 * 2 powi (e - 23) = 2 powi (24 + (e - 23))"
        by (subst power_int_add) simp_all
      then show ?thesis by (simp add: add.commute)
    qed
    have t0: "(2 :: real) ^ 23 * 2 powi (e - 23) = 2 powi e"
    proof -
      have "(2 :: real) powi 23 * 2 powi (e - 23) = 2 powi (23 + (e - 23))"
        by (subst power_int_add) simp_all
      then show ?thesis by simp
    qed
    show ?thesis
    proof (cases "\<bar>m\<bar> = 2 ^ 24")
      case True
      then have "real_of_int \<bar>m\<bar> = 2 ^ 24" by simp
      then have ay': "\<bar>y\<bar> = 2 powi (e + 1)" by (simp only: ay t)
      have ey: "f32_exp y = e + 1"
      proof (rule f32_exp_eqI)
        show "2 powi (e + 1) \<le> \<bar>y\<bar>" by (simp add: ay')
        have "(2 :: real) powi (e + 1) < 2 powi (e + 1 + 1)"
          by (rule power_int_strict_increasing) simp_all
        then show "\<bar>y\<bar> < 2 powi (e + 1 + 1)" by (simp add: ay')
        show "- 126 \<le> e + 1" using ge by simp
      qed
      from True have "\<bar>m\<bar> = 16777216" by simp
      then have "m = 2 * 8388608 \<or> m = 2 * (- 8388608)" by linarith
      then obtain h where h: "m = 2 * h" by blast
      have u: "(2 :: real) powi (e - 23) * 2 powi (23 - (e + 1)) = 1 / 2"
      proof -
        have "(2 :: real) powi (e - 23) * 2 powi (23 - (e + 1)) = 2 powi ((e - 23) + (23 - (e + 1)))"
          by (subst power_int_add) simp_all
        then show ?thesis by (simp add: power_int_minus)
      qed
      have "y * 2 powi (23 - f32_exp y) = of_int m * ((2 :: real) powi (e - 23) * 2 powi (23 - (e + 1)))"
        by (simp only: ey) (simp add: y_def mult.assoc)
      also have "\<dots> = of_int h" by (simp only: u h)
      finally have "f32 y = y" by (rule f32_exact)
      then show ?thesis by (simp add: y)
    next
      case False
      with mu ml have ma: "\<bar>m\<bar> < 2 ^ 24" by simp
      have yu: "\<bar>y\<bar> < 2 powi (e + 1)"
      proof -
        have "of_int \<bar>m\<bar> * (2 :: real) powi (e - 23) < 2 ^ 24 * 2 powi (e - 23)"
          using ma q by (intro mult_strict_right_mono) simp_all
        then show ?thesis by (simp only: ay t)
      qed
      have ey: "f32_exp y = e"
      proof (cases "- 126 < e")
        case True
        with lb have "2 powi e \<le> \<bar>x\<bar>" by simp
        then have "2 powi e * 2 powi (23 - e) \<le> \<bar>x\<bar> * 2 powi (23 - e)"
          using p by (intro mult_right_mono) simp_all
        then have al: "2 ^ 23 \<le> \<bar>x * 2 powi (23 - e)\<bar>" by (simp only: a s0)
        have "2 ^ 23 \<le> \<bar>m\<bar>"
        proof (cases "0 \<le> x")
          case True
          with al have "of_int (2 ^ 23) \<le> x * 2 powi (23 - e)" using p by (simp add: abs_mult)
          then have "2 ^ 23 \<le> m" unfolding m_def by (rule round_even_ge)
          then show ?thesis by simp
        next
          case False
          with al have "x * 2 powi (23 - e) \<le> of_int (- (2 ^ 23))" using p by (simp add: abs_mult)
          then have "m \<le> - (2 ^ 23)" unfolding m_def by (rule round_even_le)
          then show ?thesis by simp
        qed
        then have "(2 :: real) ^ 23 \<le> of_int \<bar>m\<bar>" by (metis of_int_le_iff of_int_numeral of_int_power)
        then have "(2 :: real) ^ 23 * 2 powi (e - 23) \<le> of_int \<bar>m\<bar> * 2 powi (e - 23)"
          using q by (intro mult_right_mono) simp_all
        then have "2 powi e \<le> \<bar>y\<bar>" by (simp only: ay t0)
        then show ?thesis using yu ge by (rule f32_exp_eqI)
      next
        case False
        with ge have "e = - 126" by simp
        with yu have "\<bar>y\<bar> < 2 powi (- 125)" by simp
        with y0 have "f32_exp y = - 126" by (rule f32_exp_subnormal)
        then show ?thesis by (simp add: \<open>e = - 126\<close>)
      qed
      have "y * 2 powi (23 - f32_exp y) = of_int m * ((2 :: real) powi (e - 23) * 2 powi (23 - e))"
        by (simp only: ey) (simp add: y_def mult.assoc)
      also have "\<dots> = of_int m" by (simp only: pow2_shift mult_1_right)
      finally have "f32 y = y" by (rule f32_exact)
      then show ?thesis by (simp add: y)
    qed
  qed
qed



lemma f32_values: "f32 0 = 0" "f32 1 = 1" "f32 5 = 5" "f32 (5 / 16) = 5 / 16"
  "f32 (3 / 10) = 5033165 / 16777216"
proof -
  show "f32 0 = 0" by (simp add: f32_def)
  have e1: "f32_exp 1 = 0" by (rule f32_exp_eqI) simp_all
  show "f32 1 = 1" by (rule f32_exact[of _ "2 ^ 23"]) (simp add: e1)
  have e5: "f32_exp 5 = 2" by (rule f32_exp_eqI) simp_all
  show "f32 5 = 5" by (rule f32_exact[of _ "5 * 2 ^ 21"]) (simp add: e5)
  have e516: "f32_exp (5 / 16) = - 2" by (rule f32_exp_eqI) (simp_all add: power_int_minus)
  show "f32 (5 / 16) = 5 / 16" by (rule f32_exact[of _ "5 * 2 ^ 21"]) (simp add: e516)
  have e310: "f32_exp (3 / 10) = - 2" by (rule f32_exp_eqI) (simp_all add: power_int_minus)
  have "round_even (3 / 10 * 2 powi 25) = 10066330"
    by (simp add: round_even_def Let_def)
  then show "f32 (3 / 10) = 5033165 / 16777216"
    by (simp add: f32_def e310 power_int_minus)
qed

lemma shape_astype_f32: "shape (astype_f32 a) = shape a"
  by (simp add: astype_f32_def)

lemma wf_astype_f32: "wf_array (astype_f32 a) = wf_array a"
  by (simp add: astype_f32_def wf_array_def size_of_def)

lemma astype_f32_ex:
  "astype_f32 \<lparr>shape = [2, 2], data = [0, 0, 1, 1]\<rparr> = \<lparr>shape = [2, 2], data = [0, 0, 1, 1]\<rparr>"
  "astype_f32 \<lparr>shape = [1], data = [5]\<rparr> = \<lparr>shape = [1], data = [5]\<rparr>"
  "astype_f32 \<lparr>shape = [1], data = [3 / 10]\<rparr> = \<lparr>shape = [1], data = [f32 (3 / 10)]\<rparr>"
  by (simp_all add: astype_f32_def f32_values(1-3))

lemma clamp_box_bounds:
  assumes "1 \<le> W" and "1 \<le> H" and "clamp_box x y w h W H = (x', y', w', h')"
  shows "0 \<le> x' \<and> x' \<le> W - 1 \<and> 0 \<le> y' \<and> y' \<le> H - 1 \<and> 1 \<le> w' \<and> 1 \<le> h' \<and>
         x' + w' \<le> W \<and> y' + h' \<le> H"
proof -
  from assms(3) have x': "x' = max 0 (min x (W - 1))" and y': "y' = max 0 (min y (H - 1))"
    and w': "w' = max 1 (min w (W - x'))" and h': "h' = max 1 (min h (H - y'))"
    unfolding clamp_box_def Let_def by blast+
  from x' assms(1) have xb: "0 \<le> x' \<and> x' \<le> W - 1"
    by (simp add: max_def min_def)
  from y' assms(2) have yb: "0 \<le> y' \<and> y' \<le> H - 1"
    by (simp add: max_def min_def)
  from w' xb have wb: "1 \<le> w' \<and> x' + w' \<le> W"
    by (simp add: max_def min_def)
  from h' yb have hb: "1 \<le> h' \<and> y' + h' \<le> H"
    by (simp add: max_def min_def)
  from xb yb wb hb show ?thesis by simp
qed

subsection \<open>Slices, crops and means\<close>

lemma py_slice_upt:
  assumes "0 \<le> a" and "0 \<le> l" and "a + l \<le> int n"
  shows "py_slice a (a + l) [0..<n] = [nat a..<nat a + nat l]"
proof -
  have a: "slice_bound a n = nat a"
    using assms by (simp add: slice_bound_def)
  have b: "slice_bound (a + l) n = nat a + nat l"
    using assms by (simp add: slice_bound_def nat_add_distrib)
  have "take (nat l) (drop (nat a) [0..<n]) = [nat a..<nat a + nat l]"
    using assms by (simp add: take_upt drop_upt)
  then show ?thesis by (simp add: py_slice_def a b Let_def)
qed

lemma length_grid: "length (grid f rs cs) = length rs * length cs"
  by (induction rs) (simp_all add: grid_def)

lemma sum_list_grid_rows:
  "sum_list (grid f rs cs) = sum_list (map (\<lambda>i. sum_list (map (f i) cs)) rs)"
  by (induction rs) (simp_all add: grid_def)

lemma sum_list_grid:
  "sum_list (grid f [a..<b] [c..<d]) = (\<Sum>i = a..<b. \<Sum>j = c..<d. f i j)"
proof -
  have "sum_list (grid f [a..<b] [c..<d]) = sum_list (map (\<lambda>i. sum_list (map (f i) [c..<d])) [a..<b])"
    by (rule sum_list_grid_rows)
  also have "\<dots> = (\<Sum>i = a..<b. \<Sum>j = c..<d. f i j)"
    by (simp add: interv_sum_list_conv_sum_set_nat)
  finally show ?thesis .
qed

lemma map2_grid:
  "map2 (*) (grid f rs cs) (grid g rs cs) = grid (\<lambda>i j. f i j * g i j) rs cs"
proof (induction rs)
  case Nil
  show ?case by (simp add: grid_def)
next
  case (Cons i rs)
  have "map2 (*) (map (f i) cs) (map (g i) cs) = map (\<lambda>j. f i j * g i j) cs"
    by (induction cs) simp_all
  with Cons show ?case by (simp add: grid_def zip_append)
qed

lemma map_grid: "map h (grid f rs cs) = grid (\<lambda>i j. h (f i j)) rs cs"
  by (simp add: grid_def map_concat comp_def)

lemma set_grid: "set (grid f rs cs) = {f i j | i j. i \<in> set rs \<and> j \<in> set cs}"
  by (auto simp: grid_def)

lemma crop_grid:
  assumes sh: "shape img = [H, W]"
    and b: "0 \<le> x" "0 \<le> y" "1 \<le> w" "1 \<le> h" "x + w \<le> int W" "y + h \<le> int H"
  shows "crop img x y w h =
           \<lparr>shape = [nat h, nat w],
            data = grid (pixel img) [nat y..<nat (y + h)] [nat x..<nat (x + w)]\<rparr>"
proof -
  have r: "py_slice y (y + h) [0..<H] = [nat y..<nat y + nat h]"
    using b by (intro py_slice_upt) simp_all
  have c: "py_slice x (x + w) [0..<W] = [nat x..<nat x + nat w]"
    using b by (intro py_slice_upt) simp_all
  have e: "nat (y + h) = nat y + nat h" "nat (x + w) = nat x + nat w"
    using b by (simp_all add: nat_add_distrib)
  have p: "pixel img = (\<lambda>i j. data img ! (i * W + j))"
    by (simp add: pixel_def sh fun_eq_iff)
  show ?thesis by (simp add: crop_def sh r c e p grid_def)
qed

lemma pixel_in_data:
  assumes "shape a = [H, W]" and "wf_array a" and "i < H" and "j < W"
  shows "pixel a i j \<in> set (data a)"
proof -
  have "i * W + j < Suc i * W" using assms(4) by simp
  also have "\<dots> \<le> H * W" using assms(3) by (intro mult_le_mono1) simp
  finally have "i * W + j < length (data a)"
    using assms(1,2) by (simp add: wf_array_def size_of_def)
  then show ?thesis by (simp add: pixel_def assms(1))
qed

lemma sum_list_in01: "in01 xs \<Longrightarrow> 0 \<le> sum_list xs \<and> sum_list xs \<le> real (length xs)"
  by (induction xs) (auto simp: in01_def)

lemma in01_grid:
  assumes "\<And>i j. i \<in> set rs \<Longrightarrow> j \<in> set cs \<Longrightarrow> 0 \<le> f i j \<and> f i j \<le> 1"
  shows "in01 (grid f rs cs)"
  using assms by (auto simp: in01_def set_grid)

lemma in01_avg:
  assumes "in01 xs" and "length xs = n"
  shows "0 \<le> sum_list xs / real n \<and> sum_list xs / real n \<le> 1"
  using sum_list_in01[OF assms(1)] assms(2) by (cases "n = 0") (auto simp: divide_le_eq)

lemma mask_px_fun: "mask_px rel rel_min = (\<lambda>i j. if pixel rel i j \<ge> rel_min then 1 else 0)"
  by (simp add: fun_eq_iff mask_px_def)

text \<open>
  The scorer on two maps of the image's shape, with the crops written as grids over the
  rows and columns of the clamped box.
\<close>

lemma roi_score_unfold:
  assumes sl: "shape loc = [H, W]" and sr: "shape rel = [H, W]" and H: "1 \<le> H" and W: "1 \<le> W"
    and cb: "clamp_box (box_x roi) (box_y roi) (box_w roi) (box_h roi) (int W) (int H) = (x, y, w, h)"
  defines "rs \<equiv> [nat y..<nat (y + h)]" and "cs \<equiv> [nat x..<nat (x + w)]"
  shows "roi_anomaly_score loc rel roi rel_min =
     (let n = real (nat h * nat w) in
      if sum_list (grid (mask_px rel rel_min) rs cs) / n < 15 / 100
      then sum_list (grid (\<lambda>i j. pixel loc i j * pixel rel i j) rs cs) / n * (25 / 100)
      else sum_list (grid (\<lambda>i j. pixel loc i j * mask_px rel rel_min i j) rs cs) / n)"
proof -
  from clamp_box_bounds[OF _ _ cb] H W
  have b: "0 \<le> x" "0 \<le> y" "1 \<le> w" "1 \<le> h" "x + w \<le> int W" "y + h \<le> int H"
    by simp_all
  have l: "crop loc x y w h = \<lparr>shape = [nat h, nat w], data = grid (pixel loc) rs cs\<rparr>"
    unfolding rs_def cs_def by (rule crop_grid[OF sl b])
  have r: "crop rel x y w h = \<lparr>shape = [nat h, nat w], data = grid (pixel rel) rs cs\<rparr>"
    unfolding rs_def cs_def by (rule crop_grid[OF sr b])
  have len: "length rs * length cs = nat h * nat w"
    using b by (simp add: rs_def cs_def nat_add_distrib)
  have m: "data (ge_mask (crop rel x y w h) rel_min) = grid (mask_px rel rel_min) rs cs"
    by (simp add: ge_mask_def r map_grid mask_px_fun)
  have lr: "data (mul (crop loc x y w h) (crop rel x y w h)) =
      grid (\<lambda>i j. pixel loc i j * pixel rel i j) rs cs"
    by (simp add: mul_def l r map2_grid)
  have lm: "data (mul (crop loc x y w h) (ge_mask (crop rel x y w h) rel_min)) =
      grid (\<lambda>i j. pixel loc i j * mask_px rel rel_min i j) rs cs"
    using m by (simp add: mul_def l map2_grid)
  have hw: "shape_HW loc = (int H, int W)" by (simp add: shape_HW_def sl)
  show ?thesis
    unfolding roi_anomaly_score_def hw
    by (simp only: cb prod.case Let_def mean_def m lr lm length_grid len)
qed

lemma roi_anomaly_score_in01:
  assumes sl: "shape loc = [H, W]" and sr: "shape rel = [H, W]"
    and wl: "wf_array loc" and wr: "wf_array rel"
    and H: "1 \<le> H" and W: "1 \<le> W" and vl: "in01 (data loc)" and vr: "in01 (data rel)"
  shows "0 \<le> roi_anomaly_score loc rel roi rel_min \<and> roi_anomaly_score loc rel roi rel_min \<le> 1"
proof -
  obtain x y w h
    where cb: "clamp_box (box_x roi) (box_y roi) (box_w roi) (box_h roi) (int W) (int H) = (x, y, w, h)"
    by (metis prod_cases4)
  define rs where "rs = [nat y..<nat (y + h)]"
  define cs where "cs = [nat x..<nat (x + w)]"
  define n where "n = nat h * nat w"
  from clamp_box_bounds[OF _ _ cb] H W
  have b: "0 \<le> x" "0 \<le> y" "1 \<le> w" "1 \<le> h" "x + w \<le> int W" "y + h \<le> int H"
    by simp_all
  have len: "length rs * length cs = n"
    using b by (simp add: rs_def cs_def n_def nat_add_distrib)
  have inb: "i < H \<and> j < W" if "i \<in> set rs" "j \<in> set cs" for i j
    using that b by (auto simp: rs_def cs_def)
  have pl: "0 \<le> pixel loc i j \<and> pixel loc i j \<le> 1" if "i \<in> set rs" "j \<in> set cs" for i j
    using pixel_in_data[OF sl wl, of i j] inb[OF that] vl by (simp add: in01_def)
  have pr: "0 \<le> pixel rel i j \<and> pixel rel i j \<le> 1" if "i \<in> set rs" "j \<in> set cs" for i j
    using pixel_in_data[OF sr wr, of i j] inb[OF that] vr by (simp add: in01_def)
  have "in01 (grid (\<lambda>i j. pixel loc i j * pixel rel i j) rs cs)"
  proof (rule in01_grid)
    fix i j assume ij: "i \<in> set rs" "j \<in> set cs"
    from pl[OF ij] pr[OF ij]
    show "0 \<le> pixel loc i j * pixel rel i j \<and> pixel loc i j * pixel rel i j \<le> 1"
      by (simp add: mult_le_one)
  qed
  from in01_avg[OF this, of n]
  have A: "0 \<le> sum_list (grid (\<lambda>i j. pixel loc i j * pixel rel i j) rs cs) / real n"
    "sum_list (grid (\<lambda>i j. pixel loc i j * pixel rel i j) rs cs) / real n \<le> 1"
    by (simp_all add: length_grid len)
  have "in01 (grid (\<lambda>i j. pixel loc i j * mask_px rel rel_min i j) rs cs)"
  proof (rule in01_grid)
    fix i j assume ij: "i \<in> set rs" "j \<in> set cs"
    from pl[OF ij]
    show "0 \<le> pixel loc i j * mask_px rel rel_min i j \<and> pixel loc i j * mask_px rel rel_min i j \<le> 1"
      by (simp add: mask_px_def)
  qed
  from in01_avg[OF this, of n]
  have B: "0 \<le> sum_list (grid (\<lambda>i j. pixel loc i j * mask_px rel rel_min i j) rs cs) / real n"
    "sum_list (grid (\<lambda>i j. pixel loc i j * mask_px rel rel_min i j) rs cs) / real n \<le> 1"
    by (simp_all add: length_grid len)
  from A
  have A': "0 \<le> sum_list (grid (\<lambda>i j. pixel loc i j * pixel rel i j) rs cs) / real n * (25 / 100)"
    "sum_list (grid (\<lambda>i j. pixel loc i j * pixel rel i j) rs cs) / real n * (25 / 100) \<le> 1"
    by simp_all
  show ?thesis
    unfolding roi_score_unfold[OF sl sr H W cb] Let_def
    using A' B by (simp only: rs_def[symmetric] cs_def[symmetric] n_def[symmetric] split: if_split) simp
qed

lemma crop_clamped_nonempty:
  assumes sl: "shape a = [H, W]" and wl: "wf_array a" and H: "1 \<le> H" and W: "1 \<le> W"
    and cb: "clamp_box x y w h (int W) (int H) = (x', y', w', h')"
  shows "shape (crop a x' y' w' h') = [nat h', nat w'] \<and> data (crop a x' y' w' h') \<noteq> [] \<and>
         wf_array (crop a x' y' w' h') \<and> set (data (crop a x' y' w' h')) \<subseteq> set (data a)"
proof -
  from clamp_box_bounds[OF _ _ cb] H W
  have b: "0 \<le> x'" "0 \<le> y'" "1 \<le> w'" "1 \<le> h'" "x' + w' \<le> int W" "y' + h' \<le> int H"
    by simp_all
  note c = crop_grid[OF sl b]
  have len: "length (data (crop a x' y' w' h')) = nat h' * nat w'"
    using b by (simp add: c length_grid nat_add_distrib)
  have "0 < nat h' * nat w'" using b by simp
  with len have ne: "data (crop a x' y' w' h') \<noteq> []"
    by (cases "data (crop a x' y' w' h')") simp_all
  have sub: "set (data (crop a x' y' w' h')) \<subseteq> set (data a)"
  proof
    fix v assume "v \<in> set (data (crop a x' y' w' h'))"
    then obtain i j where v: "v = pixel a i j"
      and i: "i \<in> set [nat y'..<nat (y' + h')]" and j: "j \<in> set [nat x'..<nat (x' + w')]"
      by (auto simp: c set_grid)
    from i j b have "i < H" "j < W" by auto
    from pixel_in_data[OF sl wl this] v show "v \<in> set (data a)" by simp
  qed
  show ?thesis using ne sub len by (simp add: c wf_array_def size_of_def)
qed

subsection \<open>The region scorer: estimator and range\<close>

text \<open>
  Claim C2. For every region and every localization and reliability map of the image's
  shape, with the mask the 0/1 indicator of \<open>reliability \<ge> rel_min\<close> on the pixels of the
  region's clamped box: when the mean of the mask is at least 0.15 the score is the mean
  of localization times mask over the box, and when it is below 0.15 the score is 0.25
  times the mean of localization times reliability over the box.
\<close>

theorem roi_anomaly_score_coverage:
  assumes "shape loc = [H, W]" and "shape rel = [H, W]" and "wf_array loc" and "wf_array rel"
    and "1 \<le> H" and "1 \<le> W"
    and "clamp_box (box_x roi) (box_y roi) (box_w roi) (box_h roi) (int W) (int H) = b"
  shows "roi_anomaly_score loc rel roi rel_min =
     (if 15 / 100 \<le> region_mean (mask_px rel rel_min) b
      then region_mean (\<lambda>i j. pixel loc i j * mask_px rel rel_min i j) b
      else 25 / 100 * region_mean (\<lambda>i j. pixel loc i j * pixel rel i j) b)"
proof -
  obtain x y w h where b: "b = (x, y, w, h)" by (cases b) auto
  from roi_score_unfold[OF assms(1,2,5,6) assms(7)[unfolded b], of rel_min]
  show ?thesis
    by (simp add: b region_mean_def sum_list_grid Let_def not_less[symmetric])
qed

theorem roi_anomaly_score_coverage_witness:
  "roi_anomaly_score ex_loc ex_rel ex_roi (2 / 5) = 1 / 4 \<and>
   roi_anomaly_score ex_loc ex_rel ex_roi 2 = 1 / 16"
proof -
  have cb: "clamp_box (box_x ex_roi) (box_y ex_roi) (box_w ex_roi) (box_h ex_roi) (int 2) (int 1) = (0, 0, 2, 1)"
    by (simp add: clamp_box_def ex_roi_def)
  have s: "shape ex_loc = [1, 2]" "shape ex_rel = [1, 2]" "wf_array ex_loc" "wf_array ex_rel"
    by (simp_all add: ex_loc_def ex_rel_def wf_array_def size_of_def)
  have two: "{0..<2::nat} = {0, 1}" by auto
  have px: "pixel ex_loc 0 0 = 1 / 2" "pixel ex_loc 0 (Suc 0) = 1" "pixel ex_rel 0 0 = 1" "pixel ex_rel 0 (Suc 0) = 0"
    by (simp_all add: pixel_def ex_loc_def ex_rel_def)
  from roi_anomaly_score_coverage[OF s _ _ cb, of "2 / 5"]
  have a: "roi_anomaly_score ex_loc ex_rel ex_roi (2 / 5) = 1 / 4"
    by (simp add: region_mean_def mask_px_def two px)
  from roi_anomaly_score_coverage[OF s _ _ cb, of 2]
  have b: "roi_anomaly_score ex_loc ex_rel ex_roi 2 = 1 / 16"
    by (simp add: region_mean_def mask_px_def two px)
  from a b show ?thesis by simp
qed

text \<open>
  Claim C9. For every image width and height of at least 1 and every integer box, the
  clamped box starts inside the image, has width and height of at least 1 and ends inside
  the image; so the crop of any map of the image's shape at the clamped box has exactly
  the clamped height and width, is not empty and holds entries of the map only. The
  region score of two such maps with all entries between 0 and 1 lies between 0 and 1.
\<close>

theorem clamp_box_crop_score_bounds:
  assumes "1 \<le> W" and "1 \<le> H" and "clamp_box x y w h W H = (x', y', w', h')"
  shows "(0 \<le> x' \<and> x' \<le> W - 1 \<and> 0 \<le> y' \<and> y' \<le> H - 1 \<and> 1 \<le> w' \<and> 1 \<le> h' \<and>
          x' + w' \<le> W \<and> y' + h' \<le> H) \<and>
         (\<forall>a. shape a = [nat H, nat W] \<and> wf_array a \<longrightarrow>
            shape (crop a x' y' w' h') = [nat h', nat w'] \<and> data (crop a x' y' w' h') \<noteq> [] \<and>
            set (data (crop a x' y' w' h')) \<subseteq> set (data a)) \<and>
         (\<forall>loc rel roi rel_min.
            shape loc = [nat H, nat W] \<and> shape rel = [nat H, nat W] \<and> wf_array loc \<and> wf_array rel \<and>
            in01 (data loc) \<and> in01 (data rel) \<longrightarrow>
            0 \<le> roi_anomaly_score loc rel roi rel_min \<and> roi_anomaly_score loc rel roi rel_min \<le> 1)"
proof -
  have H: "1 \<le> nat H" and W: "1 \<le> nat W" and i: "int (nat W) = W" "int (nat H) = H"
    using assms(1,2) by simp_all
  have cb: "clamp_box x y w h (int (nat W)) (int (nat H)) = (x', y', w', h')"
    using assms(3) by (simp only: i)
  have "shape (crop a x' y' w' h') = [nat h', nat w'] \<and> data (crop a x' y' w' h') \<noteq> [] \<and>
        set (data (crop a x' y' w' h')) \<subseteq> set (data a)"
    if "shape a = [nat H, nat W]" "wf_array a" for a
    using crop_clamped_nonempty[OF that H W cb] by simp
  moreover have "0 \<le> roi_anomaly_score loc rel roi rel_min \<and> roi_anomaly_score loc rel roi rel_min \<le> 1"
    if "shape loc = [nat H, nat W]" "shape rel = [nat H, nat W]" "wf_array loc" "wf_array rel"
      "in01 (data loc)" "in01 (data rel)" for loc rel roi rel_min
    using roi_anomaly_score_in01[OF that(1-4) H W that(5,6)] .
  ultimately show ?thesis
    using clamp_box_bounds[OF assms] by blast
qed

theorem clamp_box_crop_score_bounds_witness:
  "clamp_box (- 5) 7 100 0 2 1 = (0, 0, 2, 1) \<and>
   shape (crop ex_loc 0 0 2 1) = [1, 2] \<and> data (crop ex_loc 0 0 2 1) \<noteq> [] \<and>
   set (data (crop ex_loc 0 0 2 1)) \<subseteq> set (data ex_loc) \<and>
   0 \<le> roi_anomaly_score ex_loc ex_rel ex_roi (2 / 5) \<and>
   roi_anomaly_score ex_loc ex_rel ex_roi (2 / 5) \<le> 1"
proof -
  have cb: "clamp_box (- 5) 7 100 0 2 1 = (0, 0, 2, 1)"
    by (simp add: clamp_box_def)
  have s: "shape ex_loc = [nat 1, nat 2]" "shape ex_rel = [nat 1, nat 2]" "wf_array ex_loc" "wf_array ex_rel"
    "in01 (data ex_loc)" "in01 (data ex_rel)"
    by (simp_all add: ex_loc_def ex_rel_def wf_array_def size_of_def in01_def)
  from clamp_box_crop_score_bounds[of 2 1, OF _ _ cb] s
  have "shape (crop ex_loc 0 0 2 1) = [nat 1, nat 2] \<and> data (crop ex_loc 0 0 2 1) \<noteq> [] \<and>
        set (data (crop ex_loc 0 0 2 1)) \<subseteq> set (data ex_loc)"
    and "0 \<le> roi_anomaly_score ex_loc ex_rel ex_roi (2 / 5) \<and>
         roi_anomaly_score ex_loc ex_rel ex_roi (2 / 5) \<le> 1"
    by simp_all
  with cb show ?thesis by simp
qed

subsection \<open>The loop over the regions and the decision\<close>

lemma roi_loop_snoc:
  "roi_loop sc (rois @ [r]) = roi_step sc (roi_loop sc rois) r"
  by (simp add: roi_loop_def)

lemma roi_loop_first_max:
  "(case roi_loop sc rois of (mx, best) \<Rightarrow>
      (\<forall>r\<in>set rois. sc r \<le> mx) \<and>
      (if \<forall>r\<in>set rois. sc r \<le> 0 then mx = 0 \<and> best = None
       else \<exists>i<length rois. best = Some (rois ! i) \<and> mx = sc (rois ! i) \<and> 0 < mx \<and>
              (\<forall>j<i. sc (rois ! j) < sc (rois ! i))))"
proof (induction rois rule: rev_induct)
  case Nil
  show ?case by (simp add: roi_loop_def)
next
  case (snoc r rois)
  obtain mx best where l: "roi_loop sc rois = (mx, best)" by (cases "roi_loop sc rois")
  from snoc[unfolded l] have ub: "\<forall>q\<in>set rois. sc q \<le> mx"
    and ih: "if \<forall>q\<in>set rois. sc q \<le> 0 then mx = 0 \<and> best = None
       else \<exists>i<length rois. best = Some (rois ! i) \<and> mx = sc (rois ! i) \<and> 0 < mx \<and>
              (\<forall>j<i. sc (rois ! j) < sc (rois ! i))"
    by simp_all
  have mx0: "0 \<le> mx" using ih by (auto split: if_splits)
  show ?case
  proof (cases "sc r > mx")
    case True
    then have s: "roi_loop sc (rois @ [r]) = (sc r, Some r)"
      by (simp add: roi_loop_snoc l roi_step_def)
    have "\<forall>j<length rois. sc (rois ! j) < sc r"
      using ub True by (metis le_less_trans nth_mem)
    moreover have "0 < sc r" using True mx0 by simp
    moreover have "\<forall>q\<in>set (rois @ [r]). sc q \<le> sc r"
      using ub True by auto
    ultimately show ?thesis
      unfolding s
      by (auto simp: nth_append intro!: exI[of _ "length rois"])
  next
    case False
    then have s: "roi_loop sc (rois @ [r]) = (mx, best)"
      by (simp add: roi_loop_snoc l roi_step_def)
    have le: "sc r \<le> mx" using False by simp
    show ?thesis
    proof (cases "\<forall>q\<in>set rois. sc q \<le> 0")
      case True
      with ih have "mx = 0" "best = None" by simp_all
      with le True show ?thesis unfolding s by simp
    next
      case F2: False
      with ih obtain i where i: "i < length rois" "best = Some (rois ! i)" "mx = sc (rois ! i)" "0 < mx"
        "\<forall>j<i. sc (rois ! j) < sc (rois ! i)" by auto
      have ne: "\<not> (\<forall>q\<in>set (rois @ [r]). sc q \<le> 0)" using F2 by auto
      have "\<exists>i<length (rois @ [r]). best = Some ((rois @ [r]) ! i) \<and> mx = sc ((rois @ [r]) ! i) \<and> 0 < mx \<and>
              (\<forall>j<i. sc ((rois @ [r]) ! j) < sc ((rois @ [r]) ! i))"
        using i by (intro exI[of _ i]) (simp add: nth_append)
      with ne ub le show ?thesis unfolding s by (simp only: if_not_P prod.case) auto
    qed
  qed
qed

lemma analyze_image_Analysed:
  assumes "analyze_image img trufor ocr min_conf min_size global_thresh roi_thresh rel_min = Inr (Analysed res)"
  obtains H W path npz outs rois mx best where
    "img = Some (H, W)" "trufor = Inr (path, npz)" "load_trufor_outputs path npz (H, W) = Inr outs"
    "ocr_line_boxes ocr min_conf min_size = Inr rois"
    "roi_loop (\<lambda>roi. roi_anomaly_score (out_loc outs) (out_rel outs) roi rel_min) rois = (mx, best)"
    "res = \<lparr>status = (if out_score outs \<ge> global_thresh \<or> mx \<ge> roi_thresh then StatusFlagged else StatusOk),
            error_msg = [], trufor_score = out_score outs, max_roi_score = mx,
            n_rois = length rois, best_roi = best, npz_file = path\<rparr>"
  using assms
  by (auto simp: analyze_image_def Let_def split: option.splits sum.splits prod.splits)

subsection \<open>The analysis of the example inputs\<close>

lemma load_ex_npz:
  "load_trufor_outputs ''out.npz'' ex_npz (2, 2) =
     Inr \<lparr>out_score = f32 (3 / 10), out_loc = ex_map, out_rel = ex_map\<rparr>"
proof -
  have r: "name_rank Loc ''map'' = 0" "name_rank Rel ''map'' = 999"
    by (simp_all add: name_rank_def name_priority_def lower_def lower_char_def)
  have p: "pick_array ex_npz Score 2 2 = Inr (Some \<lparr>shape = [1], data = [f32 (3 / 10)]\<rparr>)"
    "pick_array ex_npz Loc 2 2 = Inr (Some ex_map)"
    "pick_array ex_npz Rel 2 2 = Inr (Some ex_map)"
    by (simp_all add: pick_array_def ex_npz_def ex_map_def shape_hint_def size_of_def astype_f32_def
        f32_values(1,2))
  have n: "norm01 ex_map = ex_map"
    by (simp add: norm01_def percentile_def Let_def clip01_def ex_map_def)
  show ?thesis by (simp add: load_trufor_outputs_def p n f32_idem)
qed

lemma ocr_ex_one:
  "ocr_line_boxes (Inr [ex_token ''7h'' 0 1]) 40 1 = Inr [ex_box ''7h'' 0]"
  by (simp add: ocr_line_boxes_def group_lines_def ocr_step_def token_text_def token_conf_def
      ex_token_def ex_box_def text_eval Let_def line_box_def py_isdigit_def
      List.map_filter_simps)

lemma ocr_ex_three:
  "ocr_line_boxes (Inr [ex_token ''7h'' 0 1, ex_token ''35m'' 1 2, ex_token ''12'' 1 3]) 40 1 =
     Inr [ex_box ''7h'' 0, ex_box ''35m'' 1, ex_box ''12'' 1]"
  by (simp add: ocr_line_boxes_def group_lines_def ocr_step_def token_text_def token_conf_def
      ex_token_def ex_box_def text_eval Let_def line_box_def py_isdigit_def
      List.map_filter_simps)


lemma upt_small: "[0..<Suc 0] = [0]" "[0..<2] = [0, Suc 0]" "[Suc 0..<2] = [Suc 0]"
  by (simp_all add: numeral_2_eq_2)

lemma score_ex_row0: "roi_anomaly_score ex_map ex_map (ex_box txt 0) (2 / 5) = 0"
proof -
  have sh: "shape ex_map = [2, 2]" by (simp add: ex_map_def)
  have cb: "clamp_box (box_x (ex_box txt 0)) (box_y (ex_box txt 0)) (box_w (ex_box txt 0))
      (box_h (ex_box txt 0)) (int 2) (int 2) = (0, 0, 2, 1)"
    by (simp add: clamp_box_def ex_box_def)
  have px: "pixel ex_map 0 0 = 0" "pixel ex_map 0 (Suc 0) = 0"
    by (simp_all add: pixel_def ex_map_def)
  from roi_score_unfold[OF sh sh _ _ cb, of "2 / 5"] show ?thesis
    by (simp add: grid_def upt_small px mask_px_def)
qed

lemma score_ex_row1: "roi_anomaly_score ex_map ex_map (ex_box txt 1) (2 / 5) = 1"
proof -
  have sh: "shape ex_map = [2, 2]" by (simp add: ex_map_def)
  have cb: "clamp_box (box_x (ex_box txt 1)) (box_y (ex_box txt 1)) (box_w (ex_box txt 1))
      (box_h (ex_box txt 1)) (int 2) (int 2) = (0, 1, 2, 1)"
    by (simp add: clamp_box_def ex_box_def)
  have px: "pixel ex_map (Suc 0) 0 = 1" "pixel ex_map (Suc 0) (Suc 0) = 1"
    by (simp_all add: pixel_def ex_map_def)
  from roi_score_unfold[OF sh sh _ _ cb, of "2 / 5"] show ?thesis
    by (simp add: grid_def upt_small px mask_px_def)
qed

lemma analyze_ex:
  assumes "ocr_line_boxes ocr min_conf min_size = Inr rois"
    and "roi_loop (\<lambda>roi. roi_anomaly_score ex_map ex_map roi rel_min) rois = (mx, best)"
  shows "analyze_image (Some (2, 2)) (Inr (''out.npz'', ex_npz)) ocr min_conf min_size
           global_thresh roi_thresh rel_min =
         Inr (Analysed
           \<lparr>status = (if f32 (3 / 10) \<ge> global_thresh \<or> mx \<ge> roi_thresh then StatusFlagged else StatusOk),
            error_msg = [], trufor_score = f32 (3 / 10), max_roi_score = mx,
            n_rois = length rois, best_roi = best, npz_file = ''out.npz''\<rparr>)"
  by (simp add: analyze_image_def load_ex_npz assms)

lemma ocr_ex_none: "ocr_line_boxes (Inr []) min_conf min_size = Inr []"
  by (simp add: ocr_line_boxes_def group_lines_def List.map_filter_simps)

lemma roi_loop_ex_one:
  "roi_loop (\<lambda>roi. roi_anomaly_score ex_map ex_map roi (2 / 5)) [ex_box ''7h'' 0] = (0, None)"
  by (simp add: roi_loop_def roi_step_def score_ex_row0)

lemma roi_loop_ex_three:
  "roi_loop (\<lambda>roi. roi_anomaly_score ex_map ex_map roi (2 / 5))
     [ex_box ''7h'' 0, ex_box ''35m'' 1, ex_box ''12'' 1] = (1, Some (ex_box ''35m'' 1))"
  by (simp add: roi_loop_def roi_step_def score_ex_row0 score_ex_row1)

subsection \<open>The decision rule\<close>

text \<open>
  Claim C1, as amended. For every image whose analysis completes without error the status is
  flagged exactly when the global score is at least the global threshold or the maximum
  region score is at least the region threshold, and ok otherwise. With no candidate region
  the maximum region score is 0; then, for a positive region threshold, the status is
  flagged exactly when the global score is at least the global threshold.
\<close>

theorem decision_rule:
  assumes "analyze_image img trufor ocr min_conf min_size global_thresh roi_thresh rel_min = Inr (Analysed res)"
  shows "(status res = StatusFlagged \<longleftrightarrow>
            trufor_score res \<ge> global_thresh \<or> max_roi_score res \<ge> roi_thresh) \<and>
         (status res = StatusOk \<longleftrightarrow>
            \<not> (trufor_score res \<ge> global_thresh \<or> max_roi_score res \<ge> roi_thresh)) \<and>
         (n_rois res = 0 \<longrightarrow> max_roi_score res = 0 \<and>
            (0 < roi_thresh \<longrightarrow> (status res = StatusFlagged \<longleftrightarrow> trufor_score res \<ge> global_thresh)))"
proof (rule analyze_image_Analysed[OF assms])
  fix H W path npz outs rois mx best
  assume l: "roi_loop (\<lambda>roi. roi_anomaly_score (out_loc outs) (out_rel outs) roi rel_min) rois = (mx, best)"
    and r: "res = \<lparr>status = (if out_score outs \<ge> global_thresh \<or> mx \<ge> roi_thresh then StatusFlagged else StatusOk),
            error_msg = [], trufor_score = out_score outs, max_roi_score = mx,
            n_rois = length rois, best_roi = best, npz_file = path\<rparr>"
  have z: "mx = 0" if "length rois = 0"
    using that l by (simp add: roi_loop_def)
  show ?thesis using z by (auto simp: r)
qed

theorem decision_rule_witness:
  "analyze_image (Some (2, 2)) (Inr (''out.npz'', ex_npz)) (Inr []) 40 18 (1 / 2) (22 / 100) (2 / 5) =
     Inr (Analysed \<lparr>status = StatusOk, error_msg = [], trufor_score = f32 (3 / 10), max_roi_score = 0,
       n_rois = 0, best_roi = None, npz_file = ''out.npz''\<rparr>) \<and>
   analyze_image (Some (2, 2)) (Inr (''out.npz'', ex_npz)) (Inr []) 40 18 (1 / 4) (22 / 100) (2 / 5) =
     Inr (Analysed \<lparr>status = StatusFlagged, error_msg = [], trufor_score = f32 (3 / 10), max_roi_score = 0,
       n_rois = 0, best_roi = None, npz_file = ''out.npz''\<rparr>)"
proof -
  have l: "roi_loop (\<lambda>roi. roi_anomaly_score ex_map ex_map roi (2 / 5)) [] = (0, None)"
    by (simp add: roi_loop_def)
  note a = analyze_ex[OF ocr_ex_none l, of 40 18]
  have a1: "analyze_image (Some (2, 2)) (Inr (''out.npz'', ex_npz)) (Inr []) 40 18 (1 / 2) (22 / 100) (2 / 5) =
     Inr (Analysed \<lparr>status = StatusOk, error_msg = [], trufor_score = f32 (3 / 10), max_roi_score = 0,
       n_rois = 0, best_roi = None, npz_file = ''out.npz''\<rparr>)"
    using a[of "1 / 2" "22 / 100"] by (simp add: f32_values(5))
  have a2: "analyze_image (Some (2, 2)) (Inr (''out.npz'', ex_npz)) (Inr []) 40 18 (1 / 4) (22 / 100) (2 / 5) =
     Inr (Analysed \<lparr>status = StatusFlagged, error_msg = [], trufor_score = f32 (3 / 10), max_roi_score = 0,
       n_rois = 0, best_roi = None, npz_file = ''out.npz''\<rparr>)"
    using a[of "1 / 4" "22 / 100"] by (simp add: f32_values(5))
  from decision_rule[OF a1] decision_rule[OF a2] a1 a2 show ?thesis by simp
qed

text \<open>
  With a region threshold of 0 the comparison of the maximum region score flags an image
  without any region: the global score 0.3 is below the global threshold 0.5, and the
  status is flagged all the same.
\<close>

theorem decision_zero_regions_counterexample:
  "analyze_image (Some (2, 2)) (Inr (''out.npz'', ex_npz)) (Inr []) 40 18 (1 / 2) 0 (2 / 5) =
     Inr (Analysed \<lparr>status = StatusFlagged, error_msg = [], trufor_score = f32 (3 / 10), max_roi_score = 0,
       n_rois = 0, best_roi = None, npz_file = ''out.npz''\<rparr>) \<and> f32 (3 / 10) < 1 / 2"
proof -
  have l: "roi_loop (\<lambda>roi. roi_anomaly_score ex_map ex_map roi (2 / 5)) [] = (0, None)"
    by (simp add: roi_loop_def)
  from analyze_ex[OF ocr_ex_none l, of 40 18 "1 / 2" 0] show ?thesis by (simp add: f32_values(5))
qed

subsection \<open>The best region and the evidence crop\<close>

lemma process_image_Analysed:
  assumes "analyze_image img trufor ocr min_conf min_size global_thresh roi_thresh rel_min = Inr (Analysed res)"
  shows "row_crop (process_image True img trufor ocr min_conf min_size global_thresh roi_thresh rel_min) =
           (if status res = StatusFlagged then best_roi res else None)"
  by (cases "best_roi res") (simp_all add: process_image_def assms)

text \<open>
  Claim C10. The best region an analysis reports is the earliest region, in the order of
  extraction, whose score is attained by no earlier region and exceeded by none: its score
  is strictly above the score of every earlier region and at least the score of every
  region, and it is the reported maximum. When no region scores above 0 the analysis
  reports no best region and the maximum 0. The batch loop writes the crop of the best
  region of a flagged image, and none when there is no best region, whatever the status.
\<close>

theorem best_roi_earliest_maximum:
  assumes "analyze_image img trufor ocr min_conf min_size global_thresh roi_thresh rel_min = Inr (Analysed res)"
  shows "\<exists>H W path npz outs rois.
           img = Some (H, W) \<and> trufor = Inr (path, npz) \<and>
           load_trufor_outputs path npz (H, W) = Inr outs \<and>
           ocr_line_boxes ocr min_conf min_size = Inr rois \<and> n_rois res = length rois \<and>
           row_crop (process_image True img trufor ocr min_conf min_size global_thresh roi_thresh rel_min) =
             (if status res = StatusFlagged then best_roi res else None) \<and>
           (let sc = (\<lambda>roi. roi_anomaly_score (out_loc outs) (out_rel outs) roi rel_min) in
              if \<forall>r\<in>set rois. sc r \<le> 0 then best_roi res = None \<and> max_roi_score res = 0
              else \<exists>i<length rois. best_roi res = Some (rois ! i) \<and> max_roi_score res = sc (rois ! i) \<and>
                     (\<forall>j<i. sc (rois ! j) < sc (rois ! i)) \<and>
                     (\<forall>j<length rois. sc (rois ! j) \<le> sc (rois ! i)))"
proof (rule analyze_image_Analysed[OF assms])
  fix H W path npz outs rois mx best
  assume i: "img = Some (H, W)" and t: "trufor = Inr (path, npz)"
    and lo: "load_trufor_outputs path npz (H, W) = Inr outs"
    and o: "ocr_line_boxes ocr min_conf min_size = Inr rois"
    and l: "roi_loop (\<lambda>roi. roi_anomaly_score (out_loc outs) (out_rel outs) roi rel_min) rois = (mx, best)"
    and r: "res = \<lparr>status = (if out_score outs \<ge> global_thresh \<or> mx \<ge> roi_thresh then StatusFlagged else StatusOk),
            error_msg = [], trufor_score = out_score outs, max_roi_score = mx,
            n_rois = length rois, best_roi = best, npz_file = path\<rparr>"
  define sc where "sc = (\<lambda>roi. roi_anomaly_score (out_loc outs) (out_rel outs) roi rel_min)"
  have l': "roi_loop sc rois = (mx, best)" using l by (simp only: sc_def)
  from roi_loop_first_max[where sc = sc and rois = rois]
  have ub: "\<forall>q\<in>set rois. sc q \<le> mx"
    and fm: "if \<forall>q\<in>set rois. sc q \<le> 0 then mx = 0 \<and> best = None
       else \<exists>i<length rois. best = Some (rois ! i) \<and> mx = sc (rois ! i) \<and> 0 < mx \<and>
              (\<forall>j<i. sc (rois ! j) < sc (rois ! i))"
    unfolding l' prod.case by blast+
  have "if \<forall>q\<in>set rois. sc q \<le> 0 then best_roi res = None \<and> max_roi_score res = 0
       else \<exists>i<length rois. best_roi res = Some (rois ! i) \<and> max_roi_score res = sc (rois ! i) \<and>
              (\<forall>j<i. sc (rois ! j) < sc (rois ! i)) \<and>
              (\<forall>j<length rois. sc (rois ! j) \<le> sc (rois ! i))"
  proof (cases "\<forall>q\<in>set rois. sc q \<le> 0")
    case True
    with fm show ?thesis by (simp add: r)
  next
    case False
    with fm obtain k where k: "k < length rois" "best = Some (rois ! k)" "mx = sc (rois ! k)"
      "\<forall>j<k. sc (rois ! j) < sc (rois ! k)" by auto
    from ub k(3) have "\<forall>j<length rois. sc (rois ! j) \<le> sc (rois ! k)" by simp
    with k False show ?thesis by (auto simp: r)
  qed
  then have "let sc = (\<lambda>roi. roi_anomaly_score (out_loc outs) (out_rel outs) roi rel_min) in
              if \<forall>r\<in>set rois. sc r \<le> 0 then best_roi res = None \<and> max_roi_score res = 0
              else \<exists>i<length rois. best_roi res = Some (rois ! i) \<and> max_roi_score res = sc (rois ! i) \<and>
                     (\<forall>j<i. sc (rois ! j) < sc (rois ! i)) \<and>
                     (\<forall>j<length rois. sc (rois ! j) \<le> sc (rois ! i))"
    by (simp only: sc_def Let_def)
  moreover have "n_rois res = length rois" by (simp add: r)
  moreover note process_image_Analysed[OF assms] i t lo o
  ultimately show ?thesis by blast
qed

text \<open>
  Two analyses of the example image. With one region of score 0 and a global threshold
  of 0.25 the image is flagged by its global score 0.3, a candidate region exists, and no
  crop is written. With three regions of scores 0, 1 and 1 the second one is the best
  region, and its crop is written.
\<close>

theorem best_roi_earliest_maximum_witness:
  "analyze_image (Some (2, 2)) (Inr (''out.npz'', ex_npz)) (Inr [ex_token ''7h'' 0 1]) 40 1
     (1 / 4) (22 / 100) (2 / 5) =
     Inr (Analysed \<lparr>status = StatusFlagged, error_msg = [], trufor_score = f32 (3 / 10),
       max_roi_score = 0, n_rois = 1, best_roi = None, npz_file = ''out.npz''\<rparr>) \<and>
   row_crop (process_image True (Some (2, 2)) (Inr (''out.npz'', ex_npz))
     (Inr [ex_token ''7h'' 0 1]) 40 1 (1 / 4) (22 / 100) (2 / 5)) = None \<and>
   analyze_image (Some (2, 2)) (Inr (''out.npz'', ex_npz))
     (Inr [ex_token ''7h'' 0 1, ex_token ''35m'' 1 2, ex_token ''12'' 1 3]) 40 1
     (1 / 2) (22 / 100) (2 / 5) =
     Inr (Analysed \<lparr>status = StatusFlagged, error_msg = [], trufor_score = f32 (3 / 10),
       max_roi_score = 1, n_rois = 3, best_roi = Some (ex_box ''35m'' 1), npz_file = ''out.npz''\<rparr>) \<and>
   row_crop (process_image True (Some (2, 2)) (Inr (''out.npz'', ex_npz))
     (Inr [ex_token ''7h'' 0 1, ex_token ''35m'' 1 2, ex_token ''12'' 1 3]) 40 1
     (1 / 2) (22 / 100) (2 / 5)) = Some (ex_box ''35m'' 1)"
proof -
  have a: "analyze_image (Some (2, 2)) (Inr (''out.npz'', ex_npz)) (Inr [ex_token ''7h'' 0 1]) 40 1
     (1 / 4) (22 / 100) (2 / 5) =
     Inr (Analysed \<lparr>status = StatusFlagged, error_msg = [], trufor_score = f32 (3 / 10),
       max_roi_score = 0, n_rois = 1, best_roi = None, npz_file = ''out.npz''\<rparr>)"
    using analyze_ex[OF ocr_ex_one roi_loop_ex_one, of "1 / 4" "22 / 100"] by (simp add: f32_values(5))
  have b: "analyze_image (Some (2, 2)) (Inr (''out.npz'', ex_npz))
     (Inr [ex_token ''7h'' 0 1, ex_token ''35m'' 1 2, ex_token ''12'' 1 3]) 40 1
     (1 / 2) (22 / 100) (2 / 5) =
     Inr (Analysed \<lparr>status = StatusFlagged, error_msg = [], trufor_score = f32 (3 / 10),
       max_roi_score = 1, n_rois = 3, best_roi = Some (ex_box ''35m'' 1), npz_file = ''out.npz''\<rparr>)"
    using analyze_ex[OF ocr_ex_three roi_loop_ex_three, of "1 / 2" "22 / 100"] by (simp add: f32_values(5))
  from best_roi_earliest_maximum[OF a]
  have ca: "row_crop (process_image True (Some (2, 2)) (Inr (''out.npz'', ex_npz))
     (Inr [ex_token ''7h'' 0 1]) 40 1 (1 / 4) (22 / 100) (2 / 5)) = None"
    by auto
  from best_roi_earliest_maximum[OF b]
  have cb: "row_crop (process_image True (Some (2, 2)) (Inr (''out.npz'', ex_npz))
     (Inr [ex_token ''7h'' 0 1, ex_token ''35m'' 1 2, ex_token ''12'' 1 3]) 40 1
     (1 / 2) (22 / 100) (2 / 5)) = Some (ex_box ''35m'' 1)"
    by auto
  from a b ca cb show ?thesis by (simp only: simp_thms)
qed

subsection \<open>The resolver: candidates and the picked arrays\<close>

lemma shape_hint_Score:
  "shape_hint Score H W a = Inr (if size_of a = 1 then Some a else None)"
  by (simp add: shape_hint_def)

lemma shape_hint_no_channel:
  assumes "want \<noteq> Score" and "no_channel H W a"
  shows "shape_hint want H W a = Inl IndexError"
  using assms
  by (auto simp: shape_hint_def no_channel_def split: list.splits)

lemma wf_first_plane:
  assumes "shape a = [1, H, W]" and "wf_array a"
  shows "wf_array (first_plane H W a)"
  using assms by (simp add: wf_array_def size_of_def first_plane_def)

lemma wf_last_plane:
  assumes "shape a = [C, H, W]" and "wf_array a" and "0 < C"
  shows "wf_array (last_plane C H W a)"
proof -
  have "C * (H * W) - (C - 1) * (H * W) = H * W"
    using assms(3) by (cases C) simp_all
  then show ?thesis
    using assms(1,2) by (simp add: wf_array_def size_of_def last_plane_def)
qed

lemma wf_channel0: "wf_array (channel0 H W C a)"
  by (simp add: wf_array_def size_of_def channel0_def)

lemma shape_hint_map:
  assumes "want \<noteq> Score" and "\<not> no_channel H W a"
  shows "\<exists>c. shape_hint want H W a = Inr c \<and> (c \<noteq> None \<longleftrightarrow> map_shaped H W a) \<and>
             (\<forall>b. c = Some b \<longrightarrow> shape b = [H, W] \<and> (wf_array a \<longrightarrow> wf_array b))"
proof (cases "shape a")
  case Nil
  then show ?thesis using assms(1) by (simp add: shape_hint_def map_shaped_def)
next
  case (Cons p ps)
  note s1 = this
  show ?thesis
  proof (cases ps)
    case Nil
    then show ?thesis using assms(1) s1 by (simp add: shape_hint_def map_shaped_def)
  next
    case (Cons q qs)
    note s2 = this
    show ?thesis
    proof (cases qs)
      case Nil
      then show ?thesis using assms(1) s1 s2 by (auto simp: shape_hint_def map_shaped_def)
    next
      case (Cons r rs)
      note s3 = this
      show ?thesis
      proof (cases rs)
        case Nil
        with s1 s2 s3 have sh: "shape a = [p, q, r]" by simp
        show ?thesis
        proof (cases "q = H \<and> r = W")
          case True
          with assms(2) sh have p0: "p \<noteq> 0" by (auto simp: no_channel_def)
          show ?thesis
          proof (cases "p = 1")
            case p1: True
            with True sh wf_first_plane[of a H W] assms(1) show ?thesis
              by (simp add: shape_hint_def map_shaped_def first_plane_def)
          next
            case False
            with True sh p0 wf_last_plane[of a p H W] assms(1) show ?thesis
              by (simp add: shape_hint_def map_shaped_def last_plane_def)
          qed
        next
          case F: False
          show ?thesis
          proof (cases "p = H \<and> q = W")
            case True
            with F assms(2) sh have "r \<noteq> 0" by (auto simp: no_channel_def)
            with True F sh wf_channel0[of H W r a] assms(1) show ?thesis
              by (auto simp: shape_hint_def map_shaped_def channel0_def)
          next
            case False
            with F sh assms(1) show ?thesis
              by (auto simp: shape_hint_def map_shaped_def)
          qed
        qed
      next
        case (Cons t ts)
        then show ?thesis using assms(1) s1 s2 s3 by (simp add: shape_hint_def map_shaped_def)
      qed
    qed
  qed
qed

lemma collect_Score:
  "collect Score H W npz =
     Inr (map (\<lambda>(k, a). (name_rank Score k, k, a)) (filter (\<lambda>(k, a). size_of a = 1) npz))"
  by (induction npz) (auto simp: shape_hint_Score)

lemma collect_map_error:
  assumes "want \<noteq> Score" and "\<exists>(k, a)\<in>set npz. no_channel H W a"
  shows "collect want H W npz = Inl IndexError"
  using assms(2)
proof (induction npz)
  case Nil
  then show ?case by simp
next
  case (Cons e npz)
  obtain k a where e: "e = (k, a)" by (cases e)
  show ?case
  proof (cases "no_channel H W a")
    case True
    then show ?thesis by (simp add: e shape_hint_no_channel[OF assms(1)])
  next
    case False
    with Cons.prems e have "\<exists>(k, a)\<in>set npz. no_channel H W a" by auto
    from Cons.IH[OF this] shape_hint_map[OF assms(1) False] show ?thesis
      by (auto simp: e)
  qed
qed

lemma collect_map_ok:
  assumes "want \<noteq> Score" and "\<forall>(k, a)\<in>set npz. \<not> no_channel H W a"
  shows "\<exists>cand. collect want H W npz = Inr cand \<and> (cand = [] \<longleftrightarrow> \<not> has_map H W npz) \<and>
           (\<forall>(r, k, b)\<in>set cand. shape b = [H, W] \<and>
              ((\<forall>(k, a)\<in>set npz. wf_array a) \<longrightarrow> wf_array b))"
  using assms(2)
proof (induction npz)
  case Nil
  then show ?case by (simp add: has_map_def)
next
  case (Cons e npz)
  obtain k a where e: "e = (k, a)" by (cases e)
  from Cons.prems e have nc: "\<not> no_channel H W a" and rest: "\<forall>(k, a)\<in>set npz. \<not> no_channel H W a"
    by auto
  from Cons.IH[OF rest] obtain cand where c: "collect want H W npz = Inr cand"
    "cand = [] \<longleftrightarrow> \<not> has_map H W npz"
    "\<forall>(r, k, b)\<in>set cand. shape b = [H, W] \<and> ((\<forall>(k, a)\<in>set npz. wf_array a) \<longrightarrow> wf_array b)"
    by blast
  from shape_hint_map[OF assms(1) nc] obtain h where h: "shape_hint want H W a = Inr h"
    "h \<noteq> None \<longleftrightarrow> map_shaped H W a"
    "\<forall>b. h = Some b \<longrightarrow> shape b = [H, W] \<and> (wf_array a \<longrightarrow> wf_array b)"
    by blast
  show ?case
  proof (cases h)
    case None
    with h c show ?thesis by (auto simp: e has_map_def)
  next
    case (Some b)
    with h c show ?thesis by (auto simp: e has_map_def)
  qed
qed

lemma sort_key_Nil_iff: "sort_key f xs = [] \<longleftrightarrow> xs = []"
  by (metis length_0_conv length_sort)

lemma sort_key_hd_mem: "sort_key f xs = c # cs \<Longrightarrow> c \<in> set xs"
  by (metis list.set_intros(1) set_sort)

lemma pick_array_Score:
  "\<exists>r. pick_array npz Score H W = Inr r \<and> (r = None \<longleftrightarrow> \<not> has_score npz) \<and>
       (\<forall>a. r = Some a \<longrightarrow> (\<exists>k a0. (k, a0) \<in> set npz \<and> size_of a0 = 1 \<and> a = astype_f32 a0))"
proof -
  define cand where "cand = map (\<lambda>(k, a). (name_rank Score k, k, a)) (filter (\<lambda>(k, a). size_of a = 1) npz)"
  have c: "collect Score H W npz = Inr cand" by (simp add: collect_Score cand_def)
  have e: "cand = [] \<longleftrightarrow> \<not> has_score npz"
    by (auto simp: cand_def has_score_def filter_empty_conv)
  have m: "(\<exists>k. (k, a) \<in> set npz) \<and> size_of a = 1" if "(r, k, a) \<in> set cand" for r k a
    using that by (auto simp: cand_def)
  show ?thesis
  proof (cases "sort_key fst cand")
    case Nil
    with e show ?thesis by (simp add: pick_array_def c sort_key_Nil_iff)
  next
    case (Cons x xs)
    then have "x \<in> set cand" by (rule sort_key_hd_mem)
    with m[of "fst x" "fst (snd x)" "snd (snd x)"] have "(\<exists>k. (k, snd (snd x)) \<in> set npz) \<and> size_of (snd (snd x)) = 1"
      by simp
    moreover have "cand \<noteq> []" using Cons by (auto simp: sort_key_Nil_iff[symmetric])
    ultimately show ?thesis using e Cons by (auto simp: pick_array_def c)
  qed
qed

lemma pick_array_map_error:
  assumes "want \<noteq> Score" and "\<exists>(k, a)\<in>set npz. no_channel H W a"
  shows "pick_array npz want H W = Inl IndexError"
  by (simp add: pick_array_def collect_map_error[OF assms])

lemma pick_array_map_ok:
  assumes "want \<noteq> Score" and "\<forall>(k, a)\<in>set npz. \<not> no_channel H W a"
  shows "\<exists>r. pick_array npz want H W = Inr r \<and> (r = None \<longleftrightarrow> \<not> has_map H W npz) \<and>
           (\<forall>b. r = Some b \<longrightarrow> shape b = [H, W] \<and> ((\<forall>(k, a)\<in>set npz. wf_array a) \<longrightarrow> wf_array b))"
proof -
  from collect_map_ok[OF assms] obtain cand where c: "collect want H W npz = Inr cand"
    "cand = [] \<longleftrightarrow> \<not> has_map H W npz"
    "\<forall>(r, k, b)\<in>set cand. shape b = [H, W] \<and> ((\<forall>(k, a)\<in>set npz. wf_array a) \<longrightarrow> wf_array b)"
    by blast
  show ?thesis
  proof (cases "sort_key fst cand")
    case Nil
    with c show ?thesis by (simp add: pick_array_def sort_key_Nil_iff)
  next
    case (Cons x xs)
    then have "x \<in> set cand" by (rule sort_key_hd_mem)
    with c(3) have "shape (snd (snd x)) = [H, W] \<and> ((\<forall>(k, a)\<in>set npz. wf_array a) \<longrightarrow> wf_array (snd (snd x)))"
      by (cases x) auto
    moreover have "cand \<noteq> []" using Cons by (auto simp: sort_key_Nil_iff[symmetric])
    ultimately show ?thesis using c Cons
      by (simp add: pick_array_def shape_astype_f32 wf_astype_f32)
  qed
qed

lemma norm01_shape: "shape (norm01 m) = shape m"
  by (simp add: norm01_def Let_def)

lemma norm01_length: "length (data (norm01 m)) = length (data m)"
  by (simp add: norm01_def Let_def)

lemma wf_norm01: "wf_array (norm01 m) = wf_array m"
  by (simp add: wf_array_def size_of_def norm01_shape norm01_length)

lemma clip01_range: "0 \<le> clip01 v \<and> clip01 v \<le> 1"
  by (simp add: clip01_def min_def max_def)

lemma in01_norm01: "in01 (data (norm01 m))"
  by (auto simp: norm01_def Let_def in01_def clip01_range)

lemma last_resort_None: "\<not> has_score npz \<Longrightarrow> last_resort npz = None"
proof -
  assume "\<not> has_score npz"
  then have "filter (\<lambda>(k, a). size_of a = 1) npz = []"
    by (auto simp: has_score_def filter_empty_conv)
  then show ?thesis by (simp add: last_resort_def)
qed

lemma size_one_data:
  assumes "wf_array a" and "size_of a = 1"
  shows "data a = [hd (data a)]"
  using assms by (cases "data a") (simp_all add: wf_array_def)

lemma load_Inr_cases:
  assumes "load_trufor_outputs path npz (H, W) = Inr outs"
  obtains s l ro v vs where "pick_array npz Loc H W = Inr (Some l)" "pick_array npz Rel H W = Inr ro"
    "data (s::ndarray) = v # vs"
    "outs = \<lparr>out_score = f32 v, out_loc = norm01 l,
             out_rel = norm01 (case ro of None \<Rightarrow> ones H W | Some r \<Rightarrow> r)\<rparr>"
proof (cases "pick_array npz Score H W")
  case (Inl e)
  with assms show ?thesis by (simp add: load_trufor_outputs_def)
next
  case sc: (Inr s0)
  show ?thesis
  proof (cases "pick_array npz Loc H W")
    case (Inl e)
    with assms sc show ?thesis by (simp add: load_trufor_outputs_def)
  next
    case lc: (Inr l0)
    show ?thesis
    proof (cases "pick_array npz Rel H W")
      case (Inl e)
      with assms sc lc show ?thesis by (simp add: load_trufor_outputs_def)
    next
      case rc: (Inr ro)
      define s' where "s' = (case s0 of None \<Rightarrow> last_resort npz | Some a \<Rightarrow> Some a)"
      from assms have a: "(case (s', l0) of
               (Some s, Some l) \<Rightarrow>
                 (case data s of
                    [] \<Rightarrow> Inl IndexError
                  | v # _ \<Rightarrow>
                      (let rel' = (case ro of None \<Rightarrow> ones H W | Some r \<Rightarrow> r)
                       in Inr \<lparr>out_score = f32 v, out_loc = norm01 l, out_rel = norm01 rel'\<rparr>))
             | _ \<Rightarrow> Inl (KeyError path (map fst npz))) = Inr outs"
        by (simp add: load_trufor_outputs_def sc lc rc s'_def)
      show ?thesis
      proof (cases s')
        case None
        with a show ?thesis by simp
      next
        case ss: (Some s)
        show ?thesis
        proof (cases l0)
          case None
          with a ss show ?thesis by simp
        next
          case ls: (Some l)
          show ?thesis
          proof (cases "data s")
            case Nil
            with a ss ls show ?thesis by simp
          next
            case (Cons v vs)
            with a ss ls have "outs = \<lparr>out_score = f32 v, out_loc = norm01 l,
                out_rel = norm01 (case ro of None \<Rightarrow> ones H W | Some r \<Rightarrow> r)\<rparr>"
              by (simp add: Let_def)
            with that[of l ro s v vs] lc ls rc Cons show ?thesis by simp
          qed
        qed
      qed
    qed
  qed
qed

lemma load_KeyError:
  assumes "\<forall>(k, a)\<in>set npz. \<not> no_channel H W a" and "\<not> has_score npz \<or> \<not> has_map H W npz"
  shows "load_trufor_outputs path npz (H, W) = Inl (KeyError path (map fst npz))"
proof -
  from pick_array_Score[of npz H W] obtain s where s: "pick_array npz Score H W = Inr s"
    "s = None \<longleftrightarrow> \<not> has_score npz" by blast
  from pick_array_map_ok[OF _ assms(1), of Loc] obtain l where l: "pick_array npz Loc H W = Inr l"
    "l = None \<longleftrightarrow> \<not> has_map H W npz" by auto
  from pick_array_map_ok[OF _ assms(1), of Rel] obtain r where r: "pick_array npz Rel H W = Inr r"
    by auto
  show ?thesis
  proof (cases "has_score npz")
    case False
    with s have "s = None" by simp
    with False show ?thesis
      by (simp add: load_trufor_outputs_def s(1) l(1) r last_resort_None)
  next
    case True
    with assms(2) l have "l = None" by simp
    then show ?thesis
      by (cases s) (simp_all add: load_trufor_outputs_def s(1) l(1) r split: option.splits)
  qed
qed

lemma load_resolved:
  assumes "wf_npz H W npz" and "has_score npz" and "has_map H W npz"
  shows "\<exists>s l r. pick_array npz Score H W = Inr (Some (astype_f32 s)) \<and> (\<exists>k. (k, s) \<in> set npz) \<and>
           size_of s = 1 \<and> data s = [hd (data s)] \<and>
           pick_array npz Loc H W = Inr (Some l) \<and> shape l = [H, W] \<and> wf_array l \<and>
           pick_array npz Rel H W = Inr (Some r) \<and> shape r = [H, W] \<and> wf_array r \<and>
           load_trufor_outputs path npz (H, W) =
             Inr \<lparr>out_score = f32 (hd (data s)), out_loc = norm01 l, out_rel = norm01 r\<rparr>"
proof -
  from assms(1) have nc: "\<forall>(k, a)\<in>set npz. \<not> no_channel H W a" and wf: "\<forall>(k, a)\<in>set npz. wf_array a"
    by (auto simp: wf_npz_def)
  from pick_array_Score[of npz H W] assms(2) obtain s k
    where s: "pick_array npz Score H W = Inr (Some (astype_f32 s))" "(k, s) \<in> set npz" "size_of s = 1"
    by auto
  from wf s(2) have "wf_array s" by auto
  from size_one_data[OF this s(3)] have d: "data s = [hd (data s)]" .
  then have d': "data (astype_f32 s) = [f32 (hd (data s))]"
    by (cases "data s") (simp_all add: astype_f32_def)
  from pick_array_map_ok[OF _ nc, of Loc] assms(3) wf obtain l where l: "pick_array npz Loc H W = Inr (Some l)"
    "shape l = [H, W]" "wf_array l" by auto
  from pick_array_map_ok[OF _ nc, of Rel] assms(3) wf obtain r where r: "pick_array npz Rel H W = Inr (Some r)"
    "shape r = [H, W]" "wf_array r" by auto
  have "load_trufor_outputs path npz (H, W) =
             Inr \<lparr>out_score = f32 (hd (data s)), out_loc = norm01 l, out_rel = norm01 r\<rparr>"
    by (simp add: load_trufor_outputs_def s(1) l(1) r(1) d' f32_idem)
  with s d l r show ?thesis by blast
qed

subsection \<open>The resolver on the example bundles\<close>


lemma name_rank_ex:
  "name_rank Score ''score'' = 0" "name_rank Score ''map'' = 999"
  "name_rank Loc ''score'' = 999" "name_rank Loc ''map'' = 0"
  "name_rank Rel ''score'' = 999" "name_rank Rel ''map'' = 999"
  by (simp_all add: name_rank_def name_priority_def lower_def lower_char_def)

lemma load_ex_npz_score_only:
  "load_trufor_outputs ''out.npz'' ex_npz_score_only (2, 2) = Inl (KeyError ''out.npz'' [''score''])"
  by (simp add: load_trufor_outputs_def pick_array_def ex_npz_score_only_def shape_hint_def size_of_def)

lemma load_ex_npz_map_only:
  "load_trufor_outputs ''out.npz'' ex_npz_map_only (2, 2) = Inl (KeyError ''out.npz'' [''score''])"
  by (simp add: load_trufor_outputs_def pick_array_def ex_npz_map_only_def shape_hint_def size_of_def
      last_resort_def)


lemma wf_ex_npz: "wf_npz 2 2 ex_npz" "wf_npz 2 2 ex_npz_score_only"
  by (simp_all add: wf_npz_def ex_npz_def ex_npz_score_only_def wf_array_def size_of_def no_channel_def)

subsection \<open>Failure of the resolution, and the resolved score\<close>

text \<open>
  Claim C3, as amended. For a bundle of well-formed arrays none of which is a map-shaped
  array without a channel, resolution fails exactly when the score role or the
  localization role cannot be resolved: one missing role is enough. The error then
  carries the path of the file and every key of the bundle, and nothing that tells which
  role is missing. Whether a key carries a reliability name plays no part in the failure.
\<close>

theorem resolution_failure:
  assumes "wf_npz H W npz"
  shows "(case load_trufor_outputs path npz (H, W) of
            Inl e \<Rightarrow> e = KeyError path (map fst npz) \<and> (\<not> has_score npz \<or> \<not> has_map H W npz)
          | Inr outs \<Rightarrow> has_score npz \<and> has_map H W npz)"
proof (cases "has_score npz \<and> has_map H W npz")
  case True
  with load_resolved[OF assms, of path] show ?thesis by auto
next
  case False
  from assms have "\<forall>(k, a)\<in>set npz. \<not> no_channel H W a" by (auto simp: wf_npz_def)
  from load_KeyError[OF this, of path] False show ?thesis by auto
qed

theorem resolution_failure_witness:
  "has_score ex_npz \<and> has_map 2 2 ex_npz \<and>
   load_trufor_outputs ''out.npz'' ex_npz_score_only (2, 2) = Inl (KeyError ''out.npz'' [''score'']) \<and>
   \<not> has_map 2 2 ex_npz_score_only"
proof -
  have l: "load_trufor_outputs ''out.npz'' ex_npz (2, 2) =
     Inr \<lparr>out_score = f32 (3 / 10), out_loc = ex_map, out_rel = ex_map\<rparr>"
    by (rule load_ex_npz)
  from resolution_failure[OF wf_ex_npz(1), of "''out.npz''"] l
  have a: "has_score ex_npz \<and> has_map 2 2 ex_npz" by simp
  have s: "has_score ex_npz_score_only"
    by (simp add: has_score_def ex_npz_score_only_def size_of_def)
  from resolution_failure[OF wf_ex_npz(2), of "''out.npz''"] load_ex_npz_score_only s
  have b: "\<not> has_map 2 2 ex_npz_score_only" by simp
  from a b load_ex_npz_score_only show ?thesis by simp
qed

text \<open>
  A bundle whose score resolves and that has no map fails to resolve, so the failure does
  not need both roles to be missing; and a bundle with the same key that has a map and no
  score fails with the very same error, so the error does not name the missing role.
\<close>

theorem resolution_failure_counterexample:
  "pick_array ex_npz_score_only Score 2 2 = Inr (Some \<lparr>shape = [1], data = [f32 (3 / 10)]\<rparr>) \<and>
   load_trufor_outputs ''out.npz'' ex_npz_score_only (2, 2) = Inl (KeyError ''out.npz'' [''score'']) \<and>
   pick_array ex_npz_map_only Loc 2 2 = Inr (Some ex_map) \<and>
   load_trufor_outputs ''out.npz'' ex_npz_map_only (2, 2) = Inl (KeyError ''out.npz'' [''score''])"
proof -
  have "pick_array ex_npz_score_only Score 2 2 = Inr (Some \<lparr>shape = [1], data = [f32 (3 / 10)]\<rparr>)"
    by (simp add: pick_array_def ex_npz_score_only_def shape_hint_def size_of_def astype_f32_def)
  moreover have "pick_array ex_npz_map_only Loc 2 2 = Inr (Some ex_map)"
    by (simp add: pick_array_def ex_npz_map_only_def shape_hint_def ex_map_def astype_f32_def
        f32_values(1,2))
  ultimately show ?thesis
    using load_ex_npz_score_only load_ex_npz_map_only by simp
qed




subsection \<open>The shape of the resolved maps and the reliability default\<close>

text \<open>
  When the score and a map can be resolved, resolution succeeds and both maps have the
  image's shape, with entries between 0 and 1.
\<close>

lemma load_shapes:
  assumes "wf_npz H W npz" and "has_score npz" and "has_map H W npz"
  shows "\<exists>outs. load_trufor_outputs path npz (H, W) = Inr outs \<and>
           shape (out_loc outs) = [H, W] \<and> wf_array (out_loc outs) \<and> in01 (data (out_loc outs)) \<and>
           shape (out_rel outs) = [H, W] \<and> wf_array (out_rel outs) \<and> in01 (data (out_rel outs))"
proof -
  from load_resolved[OF assms, of path] show ?thesis
    by (elim exE conjE) (simp add: norm01_shape wf_norm01 in01_norm01)
qed

text \<open>
  The candidates of the reliability role are the candidates of the localization role,
  ranked by other names: the picker finds no reliability map exactly when it finds no
  localization map, and then the resolution fails. So the all-ones default is applied in
  no successful resolution.
\<close>

lemma shape_hint_roles:
  "want \<noteq> Score \<Longrightarrow> shape_hint want H W a = shape_hint Loc H W a"
  by (simp add: shape_hint_def)

lemma collect_Rel_Loc:
  "collect Rel H W npz =
     (case collect Loc H W npz of
        Inl e \<Rightarrow> Inl e
      | Inr cand \<Rightarrow> Inr (map (\<lambda>(r, k, a). (name_rank Rel k, k, a)) cand))"
proof (induction npz)
  case Nil
  show ?case by simp
next
  case (Cons e npz)
  obtain k a where e: "e = (k, a)" by (cases e)
  have h: "shape_hint Rel H W a = shape_hint Loc H W a" by (rule shape_hint_roles) simp
  show ?case
  proof (cases "shape_hint Loc H W a")
    case (Inl x)
    then show ?thesis by (simp add: e h)
  next
    case c: (Inr c)
    show ?thesis
    proof (cases "collect Loc H W npz")
      case (Inl x)
      then show ?thesis by (simp add: e h c Cons.IH)
    next
      case (Inr cand)
      then show ?thesis by (cases c) (simp_all add: e h c Cons.IH)
    qed
  qed
qed

lemma pick_array_Rel_None_iff:
  "pick_array npz Rel H W = Inr None \<longleftrightarrow> pick_array npz Loc H W = Inr None"
proof (cases "collect Loc H W npz")
  case (Inl e)
  then show ?thesis by (simp add: pick_array_def collect_Rel_Loc)
next
  case (Inr cand)
  show ?thesis
  proof (cases "cand = []")
    case True
    then show ?thesis by (simp add: pick_array_def collect_Rel_Loc Inr)
  next
    case False
    then have "sort_key fst cand \<noteq> []"
      and "sort_key fst (map (\<lambda>(r, k, a). (name_rank Rel k, k, a)) cand) \<noteq> []"
      by (simp_all add: sort_key_Nil_iff)
    then show ?thesis
      by (cases "sort_key fst cand"; cases "sort_key fst (map (\<lambda>(r, k, a). (name_rank Rel k, k, a)) cand)")
        (simp_all add: pick_array_def collect_Rel_Loc Inr)
  qed
qed

lemma reliability_default_unused:
  assumes "load_trufor_outputs path npz (H, W) = Inr outs"
  shows "\<exists>r. pick_array npz Rel H W = Inr (Some r) \<and> out_rel outs = norm01 r"
proof (rule load_Inr_cases[OF assms])
  fix l ro v
  assume l: "pick_array npz Loc H W = Inr (Some l)" and r: "pick_array npz Rel H W = Inr ro"
    and o: "outs = \<lparr>out_score = f32 v, out_loc = norm01 l,
             out_rel = norm01 (case ro of None \<Rightarrow> ones H W | Some r \<Rightarrow> r)\<rparr>"
  from pick_array_Rel_None_iff[of npz H W] l r obtain r' where "ro = Some r'"
    by (cases ro) simp_all
  with r o show ?thesis by simp
qed

text \<open>
  Claim C4, at a bundle with a score and one map and no key of a reliability name: the
  resolution succeeds, both maps have the image's shape, and the reliability map is the
  normalised localization map, not the all-ones map.
\<close>

theorem reliability_default_not_applied:
  "load_trufor_outputs ''out.npz'' ex_npz (2, 2) =
     Inr \<lparr>out_score = f32 (3 / 10), out_loc = ex_map, out_rel = ex_map\<rparr> \<and>
   name_rank Rel ''score'' = 999 \<and> name_rank Rel ''map'' = 999 \<and>
   shape ex_map = [2, 2] \<and> ex_map \<noteq> ones 2 2"
proof -
  have "replicate 4 (1 :: real) = [1, 1, 1, 1]"
    by (simp add: eval_nat_numeral)
  then have "ex_map \<noteq> ones 2 2"
    by (simp add: ex_map_def ones_def)
  then show ?thesis
    by (simp add: load_ex_npz name_rank_ex) (simp add: ex_map_def)
qed

subsection \<open>A failure of the OCR engine\<close>

text \<open>
  Claim C5, as amended. For every image that was read and whose bundle resolved, a
  failure of the OCR engine is an exception that leaves the analysis, and the batch loop
  turns it into a row of status error that carries the exception as its error text, has
  no scores, no regions and no crop.
\<close>

theorem ocr_failure_error_row:
  assumes "load_trufor_outputs path npz (H, W) = Inr outs"
  shows "analyze_image (Some (H, W)) (Inr (path, npz)) (Inl e) min_conf min_size
           global_thresh roi_thresh rel_min = Inl e \<and>
         process_image True (Some (H, W)) (Inr (path, npz)) (Inl e) min_conf min_size
           global_thresh roi_thresh rel_min =
           \<lparr>row_status = StatusError, row_error = Raised e, row_trufor_score = None,
            row_max_roi_score = None, row_n_rois = 0, row_best_roi = None, row_crop = None\<rparr>"
proof -
  have a: "analyze_image (Some (H, W)) (Inr (path, npz)) (Inl e) min_conf min_size
           global_thresh roi_thresh rel_min = Inl e"
    by (simp add: analyze_image_def assms ocr_line_boxes_def)
  then show ?thesis by (simp add: process_image_def error_row_def)
qed

theorem ocr_failure_error_row_witness:
  "row_status (process_image True (Some (2, 2)) (Inr (''out.npz'', ex_npz))
     (Inl (ExternalError ''tesseract is not installed'')) 40 18 (1 / 2) (22 / 100) (2 / 5)) = StatusError \<and>
   row_error (process_image True (Some (2, 2)) (Inr (''out.npz'', ex_npz))
     (Inl (ExternalError ''tesseract is not installed'')) 40 18 (1 / 2) (22 / 100) (2 / 5)) =
     Raised (ExternalError ''tesseract is not installed'')"
  using ocr_failure_error_row[OF load_ex_npz, of "ExternalError ''tesseract is not installed''" 40 18 "1 / 2" "22 / 100" "2 / 5"]
  by simp

text \<open>
  The example image has a global score of 0.3; with a global threshold of 0.25 the global
  score alone decides for flagged (as the analysis without any token shows). When the OCR
  engine fails the row of the image has the status error instead.
\<close>

theorem ocr_failure_counterexample:
  "analyze_image (Some (2, 2)) (Inr (''out.npz'', ex_npz)) (Inr []) 40 18 (1 / 4) (22 / 100) (2 / 5) =
     Inr (Analysed \<lparr>status = StatusFlagged, error_msg = [], trufor_score = f32 (3 / 10), max_roi_score = 0,
       n_rois = 0, best_roi = None, npz_file = ''out.npz''\<rparr>) \<and>
   process_image True (Some (2, 2)) (Inr (''out.npz'', ex_npz))
     (Inl (ExternalError ''tesseract is not installed'')) 40 18 (1 / 4) (22 / 100) (2 / 5) =
     \<lparr>row_status = StatusError, row_error = Raised (ExternalError ''tesseract is not installed''),
      row_trufor_score = None, row_max_roi_score = None, row_n_rois = 0, row_best_roi = None,
      row_crop = None\<rparr>"
proof -
  have l: "roi_loop (\<lambda>roi. roi_anomaly_score ex_map ex_map roi (2 / 5)) [] = (0, None)"
    by (simp add: roi_loop_def)
  have a: "analyze_image (Some (2, 2)) (Inr (''out.npz'', ex_npz)) (Inr []) 40 18 (1 / 4) (22 / 100) (2 / 5) =
     Inr (Analysed \<lparr>status = StatusFlagged, error_msg = [], trufor_score = f32 (3 / 10), max_roi_score = 0,
       n_rois = 0, best_roi = None, npz_file = ''out.npz''\<rparr>)"
    using analyze_ex[OF ocr_ex_none l, of 40 18 "1 / 4" "22 / 100"] by (simp add: f32_values(5))
  have b: "process_image True (Some (2, 2)) (Inr (''out.npz'', ex_npz))
     (Inl (ExternalError ''tesseract is not installed'')) 40 18 (1 / 4) (22 / 100) (2 / 5) =
     \<lparr>row_status = StatusError, row_error = Raised (ExternalError ''tesseract is not installed''),
      row_trufor_score = None, row_max_roi_score = None, row_n_rois = 0, row_best_roi = None,
      row_crop = None\<rparr>"
    by (simp add: process_image_def analyze_image_def load_ex_npz ocr_line_boxes_def error_row_def)
  from a b show ?thesis by (simp only: simp_thms)
qed

subsection \<open>The region extractor\<close>

lemma dropWhile_id: "xs \<noteq> [] \<Longrightarrow> \<not> P (hd xs) \<Longrightarrow> dropWhile P xs = xs"
  by (cases xs) simp_all

lemma last_dropWhile: "dropWhile P xs \<noteq> [] \<Longrightarrow> last (dropWhile P xs) = last xs"
  by (induction xs) (auto split: if_splits)

lemma strip_id:
  assumes "s \<noteq> []" and "\<not> py_isspace (hd s)" and "\<not> py_isspace (last s)"
  shows "strip s = s"
proof -
  have "dropWhile py_isspace s = s" using assms(1,2) by (rule dropWhile_id)
  moreover have "dropWhile py_isspace (rev s) = rev s"
    using assms(1,3) by (intro dropWhile_id) (simp_all add: hd_rev)
  ultimately show ?thesis by (simp add: strip_def)
qed

lemma strip_ends:
  assumes "strip s \<noteq> []"
  shows "\<not> py_isspace (hd (strip s)) \<and> \<not> py_isspace (last (strip s))"
proof -
  define t where "t = dropWhile py_isspace s"
  define u where "u = dropWhile py_isspace (rev t)"
  have s: "strip s = rev u" by (simp add: strip_def t_def u_def)
  with assms have u: "u \<noteq> []" by simp
  then have t: "t \<noteq> []" by (auto simp: u_def)
  have "\<not> py_isspace (hd u)" using u unfolding u_def by (rule hd_dropWhile)
  moreover have "last u = last (rev t)" using u unfolding u_def by (rule last_dropWhile)
  moreover have "\<not> py_isspace (hd t)" using t unfolding t_def by (rule hd_dropWhile)
  ultimately show ?thesis using u t by (simp add: s hd_rev last_rev)
qed

lemma join_sp_ends:
  assumes "ws \<noteq> []" and "\<forall>w\<in>set ws. w \<noteq> []"
  shows "join_sp ws \<noteq> [] \<and> hd (join_sp ws) = hd (hd ws) \<and> last (join_sp ws) = last (last ws)"
  using assms
proof (induction ws rule: join_sp.induct)
  case 1
  then show ?case by simp
next
  case (2 w)
  then show ?case by simp
next
  case (3 w v ws)
  then show ?case by simp
qed

lemma token_text_ends:
  assumes "token_text t \<noteq> []"
  shows "\<not> py_isspace (hd (token_text t)) \<and> \<not> py_isspace (last (token_text t))"
  using assms unfolding token_text_def by (rule strip_ends)

lemma strip_join_token_texts:
  assumes "toks \<noteq> []" and "\<forall>t\<in>set toks. token_text t \<noteq> []"
  shows "strip (join_sp (map token_text toks)) = join_sp (map token_text toks)"
proof -
  have ne: "map token_text toks \<noteq> []" "\<forall>w\<in>set (map token_text toks). w \<noteq> []"
    using assms by auto
  from join_sp_ends[OF ne] have j: "join_sp (map token_text toks) \<noteq> []"
    "hd (join_sp (map token_text toks)) = hd (token_text (hd toks))"
    "last (join_sp (map token_text toks)) = last (token_text (last toks))"
    using assms(1) by (simp_all add: hd_map last_map)
  have "hd toks \<in> set toks" "last toks \<in> set toks" using assms(1) by simp_all
  with assms(2) token_text_ends have "\<not> py_isspace (hd (token_text (hd toks)))"
    "\<not> py_isspace (last (token_text (last toks)))" by blast+
  with j show ?thesis by (intro strip_id) simp_all
qed

lemma ocr_step_new:
  assumes "kept min_conf min_size t"
  shows "ocr_step min_conf min_size [] t =
     [(line_of t, \<lparr>ln_x1 = tok_left t, ln_y1 = tok_top t, ln_x2 = tok_left t + tok_width t,
        ln_y2 = tok_top t + tok_height t, ln_words = [token_text t],
        ln_conf_sum = token_conf t, ln_conf_n = 1\<rparr>)]"
  using assms by (simp add: ocr_step_def kept_def line_of_def Let_def not_less[symmetric])

lemma ocr_step_same:
  assumes "kept min_conf min_size t" and "line_of t = key"
  shows "ocr_step min_conf min_size [(key, d)] t =
     [(key, \<lparr>ln_x1 = min (ln_x1 d) (tok_left t), ln_y1 = min (ln_y1 d) (tok_top t),
        ln_x2 = max (ln_x2 d) (tok_left t + tok_width t),
        ln_y2 = max (ln_y2 d) (tok_top t + tok_height t),
        ln_words = ln_words d @ [token_text t],
        ln_conf_sum = ln_conf_sum d + token_conf t, ln_conf_n = ln_conf_n d + 1\<rparr>)]"
  using assms by (simp add: ocr_step_def kept_def line_of_def Let_def not_less[symmetric])

lemma group_one_line:
  assumes "\<forall>t\<in>set toks. kept min_conf min_size t \<and> line_of t = key"
    and "min_size \<le> ln_x2 d - ln_x1 d" and "min_size \<le> ln_y2 d - ln_y1 d"
  shows "\<exists>d'. foldl (ocr_step min_conf min_size) [(key, d)] toks = [(key, d')] \<and>
           ln_words d' = ln_words d @ map token_text toks \<and>
           min_size \<le> ln_x2 d' - ln_x1 d' \<and> min_size \<le> ln_y2 d' - ln_y1 d' \<and>
           ln_conf_sum d' = ln_conf_sum d + sum_list (map token_conf toks) \<and>
           ln_conf_n d' = ln_conf_n d + length toks"
  using assms
proof (induction toks arbitrary: d)
  case Nil
  then show ?case by simp
next
  case (Cons t toks)
  from Cons.prems(1) have k: "kept min_conf min_size t" "line_of t = key"
    and rest: "\<forall>t\<in>set toks. kept min_conf min_size t \<and> line_of t = key" by simp_all
  define d1 where "d1 = \<lparr>ln_x1 = min (ln_x1 d) (tok_left t), ln_y1 = min (ln_y1 d) (tok_top t),
        ln_x2 = max (ln_x2 d) (tok_left t + tok_width t),
        ln_y2 = max (ln_y2 d) (tok_top t + tok_height t),
        ln_words = ln_words d @ [token_text t],
        ln_conf_sum = ln_conf_sum d + token_conf t, ln_conf_n = ln_conf_n d + 1\<rparr>"
  have s: "ocr_step min_conf min_size [(key, d)] t = [(key, d1)]"
    unfolding d1_def by (rule ocr_step_same[OF k])
  have x: "min_size \<le> ln_x2 d1 - ln_x1 d1"
    using Cons.prems(2) by (simp add: d1_def min_def max_def)
  have y: "min_size \<le> ln_y2 d1 - ln_y1 d1"
    using Cons.prems(3) by (simp add: d1_def min_def max_def)
  from Cons.IH[OF rest x y] obtain d' where
    "foldl (ocr_step min_conf min_size) [(key, d1)] toks = [(key, d')]"
    "ln_words d' = ln_words d1 @ map token_text toks"
    "min_size \<le> ln_x2 d' - ln_x1 d'" "min_size \<le> ln_y2 d' - ln_y1 d'"
    "ln_conf_sum d' = ln_conf_sum d1 + sum_list (map token_conf toks)"
    "ln_conf_n d' = ln_conf_n d1 + length toks"
    by blast
  then show ?case
    by (intro exI[of _ d']) (simp add: s d1_def)
qed

lemma group_lines_one_line:
  assumes "toks \<noteq> []" and "\<forall>t\<in>set toks. kept min_conf min_size t \<and> line_of t = key"
  shows "\<exists>d. group_lines min_conf min_size toks = [(key, d)] \<and>
           ln_words d = map token_text toks \<and>
           min_size \<le> ln_x2 d - ln_x1 d \<and> min_size \<le> ln_y2 d - ln_y1 d \<and>
           ln_conf_sum d = sum_list (map token_conf toks) \<and> ln_conf_n d = length toks"
proof -
  from assms(1) obtain t ts where toks: "toks = t # ts" by (cases toks) auto
  with assms(2) have k: "kept min_conf min_size t" "line_of t = key"
    and rest: "\<forall>t\<in>set ts. kept min_conf min_size t \<and> line_of t = key" by simp_all
  define d0 where "d0 = \<lparr>ln_x1 = tok_left t, ln_y1 = tok_top t, ln_x2 = tok_left t + tok_width t,
        ln_y2 = tok_top t + tok_height t, ln_words = [token_text t],
        ln_conf_sum = token_conf t, ln_conf_n = 1\<rparr>"
  have s: "ocr_step min_conf min_size [] t = [(key, d0)]"
    using ocr_step_new[OF k(1)] k(2) by (simp add: d0_def)
  have x: "min_size \<le> ln_x2 d0 - ln_x1 d0" "min_size \<le> ln_y2 d0 - ln_y1 d0"
    using k(1) by (simp_all add: d0_def kept_def)
  from group_one_line[OF rest x] obtain d' where
    "foldl (ocr_step min_conf min_size) [(key, d0)] ts = [(key, d')]"
    "ln_words d' = ln_words d0 @ map token_text ts"
    "min_size \<le> ln_x2 d' - ln_x1 d'" "min_size \<le> ln_y2 d' - ln_y1 d'"
    "ln_conf_sum d' = ln_conf_sum d0 + sum_list (map token_conf ts)"
    "ln_conf_n d' = ln_conf_n d0 + length ts"
    by blast
  then show ?thesis
    by (intro exI[of _ d']) (simp add: group_lines_def toks s d0_def)
qed

lemma line_box_digit:
  "line_box min_size d = Some b \<Longrightarrow> list_ex py_isdigit (box_text b)"
  by (auto simp: line_box_def Let_def split: if_splits)

lemma line_box_no_digit:
  "\<not> list_ex py_isdigit (strip (join_sp (ln_words d))) \<Longrightarrow> line_box min_size d = None"
  by (simp add: line_box_def)

lemma ocr_line_boxes_digit:
  assumes "ocr_line_boxes (Inr toks) min_conf min_size = Inr boxes"
  shows "\<forall>b\<in>set boxes. list_ex py_isdigit (box_text b)"
proof
  fix b assume "b \<in> set boxes"
  with assms obtain d where "line_box min_size d = Some b"
    by (auto simp: ocr_line_boxes_def List.map_filter_def)
  then show "list_ex py_isdigit (box_text b)" by (rule line_box_digit)
qed

lemma ocr_line_boxes_one_line:
  assumes "toks \<noteq> []" and "\<forall>t\<in>set toks. kept min_conf min_size t \<and> line_of t = key"
    and "list_ex py_isdigit (join_sp (map token_text toks))"
  shows "\<exists>b. ocr_line_boxes (Inr toks) min_conf min_size = Inr [b] \<and>
           box_text b = join_sp (map token_text toks) \<and>
           box_conf b = sum_list (map token_conf toks) / real (length toks)"
proof -
  from group_lines_one_line[OF assms(1,2)] obtain d where
    g: "group_lines min_conf min_size toks = [(key, d)]" and w: "ln_words d = map token_text toks"
    and sz: "min_size \<le> ln_x2 d - ln_x1 d" "min_size \<le> ln_y2 d - ln_y1 d"
    and c: "ln_conf_sum d = sum_list (map token_conf toks)" "ln_conf_n d = length toks"
    by blast
  from assms(2) have "\<forall>t\<in>set toks. token_text t \<noteq> []" by (simp add: kept_def)
  from strip_join_token_texts[OF assms(1) this]
  have st: "strip (join_sp (ln_words d)) = join_sp (map token_text toks)" by (simp add: w)
  have n: "max (Suc 0) (length toks) = length toks" using assms(1) by (cases toks) simp_all
  have "line_box min_size d =
      Some \<lparr>box_x = ln_x1 d, box_y = ln_y1 d, box_w = ln_x2 d - ln_x1 d, box_h = ln_y2 d - ln_y1 d,
        box_text = join_sp (map token_text toks),
        box_conf = sum_list (map token_conf toks) / real (length toks)\<rparr>"
    using sz assms(3) by (simp add: line_box_def st c n Let_def not_less[symmetric])
  then show ?thesis
    by (simp add: ocr_line_boxes_def g List.map_filter_simps)
qed

text \<open>The loop over the tokens, on any page: the dictionary it builds.\<close>

lemma ocr_step_dropped:
  "\<not> kept min_conf min_size t \<Longrightarrow> ocr_step min_conf min_size lines t = lines"
  by (auto simp: ocr_step_def kept_def Let_def)

lemma line_acc_of_single:
  "line_acc_of [t] =
     \<lparr>ln_x1 = tok_left t, ln_y1 = tok_top t, ln_x2 = tok_left t + tok_width t,
      ln_y2 = tok_top t + tok_height t, ln_words = [token_text t],
      ln_conf_sum = token_conf t, ln_conf_n = 1\<rparr>"
  by (simp add: line_acc_of_def union_x1_def union_y1_def union_x2_def union_y2_def)

lemma line_acc_of_snoc:
  assumes "ts \<noteq> []"
  shows "line_acc_of (ts @ [t]) =
     \<lparr>ln_x1 = min (ln_x1 (line_acc_of ts)) (tok_left t),
      ln_y1 = min (ln_y1 (line_acc_of ts)) (tok_top t),
      ln_x2 = max (ln_x2 (line_acc_of ts)) (tok_left t + tok_width t),
      ln_y2 = max (ln_y2 (line_acc_of ts)) (tok_top t + tok_height t),
      ln_words = ln_words (line_acc_of ts) @ [token_text t],
      ln_conf_sum = ln_conf_sum (line_acc_of ts) + token_conf t,
      ln_conf_n = ln_conf_n (line_acc_of ts) + 1\<rparr>"
  using assms
  by (simp add: line_acc_of_def union_x1_def union_y1_def union_x2_def union_y2_def
      min.commute max.commute)

lemma ocr_step_kept:
  assumes "kept min_conf min_size t"
  shows "ocr_step min_conf min_size lines t =
     (case map_of lines (line_of t) of
        None \<Rightarrow> dict_set (line_of t) (line_acc_of [t]) lines
      | Some d \<Rightarrow>
          dict_set (line_of t)
            \<lparr>ln_x1 = min (ln_x1 d) (tok_left t), ln_y1 = min (ln_y1 d) (tok_top t),
             ln_x2 = max (ln_x2 d) (tok_left t + tok_width t),
             ln_y2 = max (ln_y2 d) (tok_top t + tok_height t),
             ln_words = ln_words d @ [token_text t],
             ln_conf_sum = ln_conf_sum d + token_conf t, ln_conf_n = ln_conf_n d + 1\<rparr> lines)"
  using assms
  by (simp add: ocr_step_def kept_def line_of_def Let_def not_less[symmetric] line_acc_of_single
      split: option.split)

lemma map_of_keyed:
  "map_of (map (\<lambda>k. (k, f k)) ks) k = (if k \<in> set ks then Some (f k) else None)"
  by (induction ks) auto

lemma dict_set_new:
  "k \<notin> set ks \<Longrightarrow> dict_set k v (map (\<lambda>k. (k, f k)) ks) = map (\<lambda>k. (k, f k)) ks @ [(k, v)]"
  by (induction ks) auto

lemma dict_set_known:
  "k \<in> set ks \<Longrightarrow> distinct ks \<Longrightarrow>
   dict_set k v (map (\<lambda>k'. (k', f k')) ks) = map (\<lambda>k'. (k', if k' = k then v else f k')) ks"
  by (induction ks) auto

lemma line_keys_snoc:
  "line_keys min_conf min_size (toks @ [t]) =
     (if kept min_conf min_size t \<and> line_of t \<notin> set (line_keys min_conf min_size toks)
      then line_keys min_conf min_size toks @ [line_of t]
      else line_keys min_conf min_size toks)"
  by (auto simp: line_keys_def)

lemma distinct_line_keys: "distinct (line_keys min_conf min_size toks)"
  by (simp add: line_keys_def)

lemma set_line_keys:
  "key \<in> set (line_keys min_conf min_size toks) \<longleftrightarrow> members min_conf min_size key toks \<noteq> []"
  by (auto simp: line_keys_def members_def filter_empty_conv)

lemma members_snoc:
  "members min_conf min_size key (toks @ [t]) =
     members min_conf min_size key toks @ (if kept min_conf min_size t \<and> line_of t = key then [t] else [])"
  by (simp add: members_def)

lemma members_kept: "\<forall>t\<in>set (members min_conf min_size key toks). kept min_conf min_size t"
  by (simp add: members_def)

lemma group_lines_members:
  "group_lines min_conf min_size toks =
     map (\<lambda>key. (key, line_acc_of (members min_conf min_size key toks)))
       (line_keys min_conf min_size toks)"
proof (induction toks rule: rev_induct)
  case Nil
  show ?case by (simp add: group_lines_def line_keys_def)
next
  case (snoc t toks)
  let ?K = "line_keys min_conf min_size toks"
  let ?f = "\<lambda>key. line_acc_of (members min_conf min_size key toks)"
  let ?K' = "line_keys min_conf min_size (toks @ [t])"
  let ?f' = "\<lambda>key. line_acc_of (members min_conf min_size key (toks @ [t]))"
  have g: "group_lines min_conf min_size (toks @ [t]) =
      ocr_step min_conf min_size (map (\<lambda>key. (key, ?f key)) ?K) t"
    using snoc by (simp add: group_lines_def)
  show ?case
  proof (cases "kept min_conf min_size t")
    case False
    then show ?thesis by (simp add: g ocr_step_dropped line_keys_snoc members_snoc)
  next
    case k: True
    show ?thesis
    proof (cases "line_of t \<in> set ?K")
      case False
      then have m: "members min_conf min_size (line_of t) toks = []"
        by (simp add: set_line_keys)
      have "ocr_step min_conf min_size (map (\<lambda>key. (key, ?f key)) ?K) t =
          map (\<lambda>key. (key, ?f key)) ?K @ [(line_of t, line_acc_of [t])]"
        using False by (simp add: ocr_step_kept[OF k] map_of_keyed dict_set_new)
      also have "\<dots> = map (\<lambda>key. (key, ?f' key)) ?K'"
        using k False m by (auto simp: line_keys_snoc members_snoc)
      finally show ?thesis by (simp only: g)
    next
      case True
      then have m: "members min_conf min_size (line_of t) toks \<noteq> []"
        by (simp add: set_line_keys)
      have "ocr_step min_conf min_size (map (\<lambda>key. (key, ?f key)) ?K) t =
          map (\<lambda>key. (key, if key = line_of t
                 then line_acc_of (members min_conf min_size (line_of t) toks @ [t])
                 else ?f key)) ?K"
        using True
        by (simp add: ocr_step_kept[OF k] map_of_keyed dict_set_known distinct_line_keys
            line_acc_of_snoc[OF m])
      also have "\<dots> = map (\<lambda>key. (key, ?f' key)) ?K'"
        using k True by (auto simp: line_keys_snoc members_snoc)
      finally show ?thesis by (simp only: g)
    qed
  qed
qed

text \<open>
  The loop over the lines: the union of boxes that are each at least \<open>min_size\<close> wide and
  high is so too, so the size test of this loop never drops a line.
\<close>

lemma union_size:
  assumes "ts \<noteq> []" and "\<forall>t\<in>set ts. kept min_conf min_size t"
  shows "min_size \<le> union_x2 ts - union_x1 ts \<and> min_size \<le> union_y2 ts - union_y1 ts"
proof -
  from assms obtain t where t: "t \<in> set ts" "min_size \<le> tok_width t" "min_size \<le> tok_height t"
    by (cases ts) (auto simp: kept_def)
  have "union_x1 ts \<le> tok_left t" unfolding union_x1_def using t(1) by (intro Min_le) auto
  moreover have "tok_left t + tok_width t \<le> union_x2 ts"
    unfolding union_x2_def using t(1) by (intro Max_ge) auto
  moreover have "union_y1 ts \<le> tok_top t" unfolding union_y1_def using t(1) by (intro Min_le) auto
  moreover have "tok_top t + tok_height t \<le> union_y2 ts"
    unfolding union_y2_def using t(1) by (intro Max_ge) auto
  ultimately show ?thesis using t(2,3) by linarith
qed

lemma line_box_members:
  assumes "ts \<noteq> []" and "\<forall>t\<in>set ts. kept min_conf min_size t"
  shows "line_box min_size (line_acc_of ts) =
     (if list_ex py_isdigit (merged_text ts) then Some (line_region ts) else None)"
proof -
  from assms(2) have "\<forall>t\<in>set ts. token_text t \<noteq> []" by (simp add: kept_def)
  from strip_join_token_texts[OF assms(1) this]
  have st: "strip (join_sp (map token_text ts)) = merged_text ts"
    by (simp add: merged_text_def)
  have n: "max (Suc 0) (length ts) = length ts" using assms(1) by (cases ts) simp_all
  from union_size[OF assms]
  have sz: "\<not> union_x2 ts - union_x1 ts < min_size" "\<not> union_y2 ts - union_y1 ts < min_size"
    by (simp_all add: not_less)
  show ?thesis
    by (simp add: line_box_def line_acc_of_def line_region_def st sz n Let_def)
qed

lemma ocr_line_boxes_lines:
  "ocr_line_boxes (Inr toks) min_conf min_size =
     Inr (map (\<lambda>key. line_region (members min_conf min_size key toks))
           (filter (\<lambda>key. list_ex py_isdigit (merged_text (members min_conf min_size key toks)))
              (line_keys min_conf min_size toks)))"
proof -
  let ?K = "line_keys min_conf min_size toks"
  let ?F = "\<lambda>key. line_box min_size (line_acc_of (members min_conf min_size key toks))"
  let ?P = "\<lambda>key. list_ex py_isdigit (merged_text (members min_conf min_size key toks))"
  let ?G = "\<lambda>key. line_region (members min_conf min_size key toks)"
  have F: "?F key = (if ?P key then Some (?G key) else None)" if "key \<in> set ?K" for key
    using that by (intro line_box_members[where min_conf = min_conf]) (simp_all add: set_line_keys members_kept)
  have "List.map_filter (line_box min_size) (map snd (group_lines min_conf min_size toks)) =
      map (the \<circ> ?F) (filter (\<lambda>key. ?F key \<noteq> None) ?K)"
    by (simp add: group_lines_members List.map_filter_def filter_map comp_def)
  also have "filter (\<lambda>key. ?F key \<noteq> None) ?K = filter ?P ?K"
    by (rule filter_cong) (simp_all add: F)
  also have "map (the \<circ> ?F) (filter ?P ?K) = map ?G (filter ?P ?K)"
    by (rule map_cong) (simp_all add: F)
  finally show ?thesis by (simp add: ocr_line_boxes_def)
qed

text \<open>The examples, by running the loops.\<close>

lemma ocr_settings:
  "ocr_line_boxes (Inr [ex_word ''Settings'' 0 80, ex_word ''Screen'' 90 60, ex_word ''Time'' 160 40]) 40 18 = Inr []"
  by (simp add: ocr_line_boxes_def group_lines_def ocr_step_def token_text_def token_conf_def
      ex_word_def text_eval Let_def line_box_def List.map_filter_simps)

lemma ocr_narrow:
  "ocr_line_boxes (Inr [ex_word ''7h'' 0 12, ex_word ''35m'' 14 12]) 40 18 = Inr []"
  by (simp add: ocr_line_boxes_def group_lines_def ocr_step_def token_text_def token_conf_def
      ex_word_def Let_def List.map_filter_simps text_eval)

lemma ocr_wide:
  "ocr_line_boxes (Inr [ex_word ''7h'' 0 20, ex_word ''35m'' 30 20]) 40 18 =
     Inr [\<lparr>box_x = 0, box_y = 100, box_w = 50, box_h = 20, box_text = ustr ''7h 35m'', box_conf = 90\<rparr>]"
  by (simp add: ocr_line_boxes_def group_lines_def ocr_step_def token_text_def token_conf_def
      ex_word_def text_eval Let_def line_box_def List.map_filter_simps)

lemma ocr_page:
  "ocr_line_boxes (Inr ex_page) 40 18 =
     Inr [\<lparr>box_x = 0, box_y = 80, box_w = 50, box_h = 20, box_text = ustr ''7h 35m'', box_conf = 90\<rparr>]"
  by (simp add: ocr_line_boxes_def group_lines_def ocr_step_def token_text_def token_conf_def
      ex_page_def ex_tok_def text_eval Let_def line_box_def List.map_filter_simps)

text \<open>
  Text outside of ASCII: a no-break space at the end of ``7h'' is stripped and a token
  that is a no-break space is dropped; the superscript two and the Arabic-Indic digit
  five are digits.
\<close>

lemma ocr_unicode:
  "ocr_line_boxes (Inr [ex_tok (''7h'' @ [CHR 0xA0]) 0 20 1 90, ex_tok [CHR 0xA0] 30 20 1 90]) 40 18 =
     Inr [\<lparr>box_x = 0, box_y = 40, box_w = 20, box_h = 20, box_text = ustr ''7h'', box_conf = 90\<rparr>]"
  "ocr_line_boxes (Inr [ex_tok (''m'' @ [CHR 0xB2]) 0 20 1 90]) 40 18 =
     Inr [\<lparr>box_x = 0, box_y = 40, box_w = 20, box_h = 20, box_text = [109, 178], box_conf = 90\<rparr>]"
  "ocr_line_boxes (Inr [ex_tok [] 0 20 1 90\<lparr>tok_text := Some [1637]\<rparr>]) 40 18 =
     Inr [\<lparr>box_x = 0, box_y = 40, box_w = 20, box_h = 20, box_text = [1637], box_conf = 90\<rparr>]"
  by (simp_all add: ocr_line_boxes_def group_lines_def ocr_step_def token_text_def token_conf_def
      ex_tok_def text_eval Let_def line_box_def List.map_filter_simps)

lemma ex_page_tokens:
  "token_text (ex_tok ''Screen'' 0 60 1 90) = ustr ''Screen''"
  "token_text (ex_tok ''7h'' 0 20 2 90) = ustr ''7h''"
  "token_text (ex_tok ''Time'' 70 40 1 90) = ustr ''Time''"
  "token_text (ex_tok ''9'' 30 20 2 10) = ustr ''9''"
  "token_text (ex_tok '' '' 30 20 2 90) = []"
  "token_text (ex_tok ''35m'' 30 20 2 90) = ustr ''35m''"
  "token_text (ex_tok ''1'' 120 5 1 90) = ustr ''1''"
  by (simp_all add: token_text_def ex_tok_def text_eval)

lemma ex_page_kept:
  "kept 40 18 (ex_tok ''Screen'' 0 60 1 90)" "kept 40 18 (ex_tok ''7h'' 0 20 2 90)"
  "kept 40 18 (ex_tok ''Time'' 70 40 1 90)" "\<not> kept 40 18 (ex_tok ''9'' 30 20 2 10)"
  "\<not> kept 40 18 (ex_tok '' '' 30 20 2 90)" "kept 40 18 (ex_tok ''35m'' 30 20 2 90)"
  "\<not> kept 40 18 (ex_tok ''1'' 120 5 1 90)"
  by (simp_all add: kept_def ex_page_tokens) (simp_all add: ex_tok_def token_conf_def ustr_def)

lemma ex_page_lines:
  "line_keys 40 18 ex_page = [(1, 1, 1), (1, 1, 2)]"
  "members 40 18 (1, 1, 1) ex_page = [ex_tok ''Screen'' 0 60 1 90, ex_tok ''Time'' 70 40 1 90]"
  "members 40 18 (1, 1, 2) ex_page = [ex_tok ''7h'' 0 20 2 90, ex_tok ''35m'' 30 20 2 90]"
  by (simp_all add: line_keys_def members_def ex_page_def ex_page_kept)
    (simp_all add: line_of_def ex_tok_def)

lemma ex_page_regions:
  "\<not> list_ex py_isdigit (merged_text [ex_tok ''Screen'' 0 60 1 90, ex_tok ''Time'' 70 40 1 90])"
  "list_ex py_isdigit (merged_text [ex_tok ''7h'' 0 20 2 90, ex_tok ''35m'' 30 20 2 90])"
  "line_region [ex_tok ''7h'' 0 20 2 90, ex_tok ''35m'' 30 20 2 90] =
     \<lparr>box_x = 0, box_y = 80, box_w = 50, box_h = 20, box_text = ustr ''7h 35m'', box_conf = 90\<rparr>"
  by (simp_all add: merged_text_def line_region_def ex_page_tokens union_x1_def union_y1_def
      union_x2_def union_y2_def)
    (simp_all add: text_eval ex_tok_def token_conf_def)

text \<open>
  Claim C7, as amended. For every list of OCR tokens, the regions extracted are, in the
  order in which the lines first appear among the kept tokens (the tokens with a
  non-empty stripped text, a confidence of at least \<open>min_conf\<close>, and an own width and
  height of at least \<open>min_size\<close>), exactly one region for each line whose merged text has a
  digit; its text is the stripped texts of the kept tokens of the line, joined by spaces
  in the order of the tokens, its box is the union of their boxes, and its confidence is
  their mean confidence. So every region has a digit in its text, and a line whose merged
  text has no digit gives no region. In particular, a single line of kept tokens whose
  merged text has a digit gives exactly one region.
\<close>

theorem digit_line_regions:
  "ocr_line_boxes (Inr toks) min_conf min_size =
     Inr (map (\<lambda>key. line_region (members min_conf min_size key toks))
           (filter (\<lambda>key. list_ex py_isdigit (merged_text (members min_conf min_size key toks)))
              (line_keys min_conf min_size toks))) \<and>
   (\<exists>boxes. ocr_line_boxes (Inr toks) min_conf min_size = Inr boxes \<and>
      (\<forall>b\<in>set boxes. list_ex py_isdigit (box_text b))) \<and>
   (\<not> list_ex py_isdigit (strip (join_sp (ln_words d))) \<longrightarrow> line_box min_size d = None) \<and>
   (line \<noteq> [] \<and> (\<forall>t\<in>set line. kept min_conf min_size t \<and> line_of t = key) \<and>
    list_ex py_isdigit (join_sp (map token_text line)) \<longrightarrow>
      (\<exists>b. ocr_line_boxes (Inr line) min_conf min_size = Inr [b] \<and>
         box_text b = join_sp (map token_text line) \<and>
         box_conf b = sum_list (map token_conf line) / real (length line)))"
proof -
  obtain boxes where b: "ocr_line_boxes (Inr toks) min_conf min_size = Inr boxes"
    by (simp add: ocr_line_boxes_def)
  from ocr_line_boxes_digit[OF b] b
  have 1: "\<exists>boxes. ocr_line_boxes (Inr toks) min_conf min_size = Inr boxes \<and>
      (\<forall>b\<in>set boxes. list_ex py_isdigit (box_text b))" by blast
  from 1 ocr_line_boxes_lines[of toks min_conf min_size] line_box_no_digit[of d min_size]
    ocr_line_boxes_one_line[of line min_conf min_size key]
  show ?thesis by blast
qed

text \<open>
  On the example page the line of ``Screen'' and ``Time'' has no digit among its kept
  tokens (its ``1'' is too narrow to be kept), and the line of ``7h'' and ``35m'' gives
  the one region, without the ``9'' of low confidence and the blank token between them.
  The tokens ``7h'' and ``35m'' alone give one region containing both, and ``Settings'',
  ``Screen'', ``Time'' give none.
\<close>

theorem digit_line_regions_witness:
  "ocr_line_boxes (Inr ex_page) 40 18 =
     Inr [\<lparr>box_x = 0, box_y = 80, box_w = 50, box_h = 20, box_text = ustr ''7h 35m'', box_conf = 90\<rparr>] \<and>
   (\<exists>b. ocr_line_boxes (Inr [ex_word ''7h'' 0 20, ex_word ''35m'' 30 20]) 40 18 = Inr [b] \<and>
      box_text b = ustr ''7h 35m'' \<and> box_conf b = 90) \<and>
   ocr_line_boxes (Inr [ex_word ''Settings'' 0 80, ex_word ''Screen'' 90 60, ex_word ''Time'' 160 40]) 40 18 = Inr []"
proof -
  let ?line = "[ex_word ''7h'' 0 20, ex_word ''35m'' 30 20]"
  let ?settings = "[ex_word ''Settings'' 0 80, ex_word ''Screen'' 90 60, ex_word ''Time'' 160 40]"
  have t: "token_text (ex_word ''7h'' 0 20) = ustr ''7h''" "token_text (ex_word ''35m'' 30 20) = ustr ''35m''"
    by (simp_all add: token_text_def ex_word_def text_eval)
  have c: "token_conf (ex_word ''7h'' 0 20) = 90" "token_conf (ex_word ''35m'' 30 20) = 90"
    by (simp_all add: token_conf_def ex_word_def)
  have k: "\<forall>t\<in>set ?line. kept 40 18 t \<and> line_of t = (1, 1, 1)"
    by (simp add: kept_def t c) (simp add: ex_word_def line_of_def ustr_def)
  have d: "list_ex py_isdigit (join_sp (map token_text ?line))"
    by (simp add: t text_eval)
  from digit_line_regions[where toks = ex_page and min_conf = 40 and min_size = 18] have "ocr_line_boxes (Inr ex_page) 40 18 =
     Inr (map (\<lambda>key. line_region (members 40 18 key ex_page))
           (filter (\<lambda>key. list_ex py_isdigit (merged_text (members 40 18 key ex_page)))
              (line_keys 40 18 ex_page)))"
    by (rule conjunct1)
  then have p: "ocr_line_boxes (Inr ex_page) 40 18 =
     Inr [\<lparr>box_x = 0, box_y = 80, box_w = 50, box_h = 20, box_text = ustr ''7h 35m'', box_conf = 90\<rparr>]"
    by (simp add: ex_page_lines ex_page_regions)
  from digit_line_regions[where toks = ?settings and min_conf = 40 and min_size = 18] have "ocr_line_boxes (Inr ?settings) 40 18 =
     Inr (map (\<lambda>key. line_region (members 40 18 key ?settings))
           (filter (\<lambda>key. list_ex py_isdigit (merged_text (members 40 18 key ?settings)))
              (line_keys 40 18 ?settings)))"
    by (rule conjunct1)
  then have s: "ocr_line_boxes (Inr ?settings) 40 18 = Inr []"
    by (simp add: line_keys_def members_def merged_text_def kept_def line_of_def token_text_def
        token_conf_def ex_word_def text_eval)
  from digit_line_regions[where min_conf = 40 and min_size = 18 and line = ?line and key = "(1, 1, 1)"] k d
  have "\<exists>b. ocr_line_boxes (Inr ?line) 40 18 = Inr [b] \<and>
         box_text b = join_sp (map token_text ?line) \<and>
         box_conf b = sum_list (map token_conf ?line) / real (length ?line)"
    by blast
  then have "\<exists>b. ocr_line_boxes (Inr ?line) 40 18 = Inr [b] \<and> box_text b = ustr ''7h 35m'' \<and> box_conf b = 90"
    by (simp add: t c ustr_def)
  with p s show ?thesis by blast
qed

text \<open>
  Two tokens with digits on one line that pass the confidence filter, each 12 pixels
  wide and 20 high, at the columns 0 and 14: their union is 26 wide and 20 high, and with
  a minimum size of 18 the loop drops each token for its own width, so no region is
  extracted.
\<close>

theorem digit_line_regions_counterexample:
  "ocr_line_boxes (Inr [ex_word ''7h'' 0 12, ex_word ''35m'' 14 12]) 40 18 = Inr [] \<and>
   list_ex py_isdigit (ustr ''7h'') \<and> list_ex py_isdigit (ustr ''35m'') \<and>
   (40 :: real) \<le> token_conf (ex_word ''7h'' 0 12) \<and> (40 :: real) \<le> token_conf (ex_word ''35m'' 14 12) \<and>
   line_of (ex_word ''7h'' 0 12) = line_of (ex_word ''35m'' 14 12)"
  by (simp add: ocr_narrow text_eval) (simp add: token_conf_def ex_word_def line_of_def)

subsection \<open>The normalization of the maps\<close>

lemma sorted_ex: "0 \<le> y \<Longrightarrow> y \<le> 1 \<Longrightarrow> sorted (0 # y # replicate 49 (1 :: real))"
  by simp

lemma percentile_ex:
  assumes "0 \<le> y" and "y \<le> 1"
  shows "percentile (0 # y # replicate 49 1) 1 = y / 2" "percentile (0 # y # replicate 49 1) 99 = 1"
proof -
  have s: "sort (0 # y # replicate 49 (1 :: real)) = 0 # y # replicate 49 1"
    using sorted_ex[OF assms] by (rule sorted_sort_id)
  show "percentile (0 # y # replicate 49 1) 1 = y / 2"
    unfolding percentile_def s by (simp add: Let_def)
  show "percentile (0 # y # replicate 49 1) 99 = 1"
    unfolding percentile_def s by (simp add: Let_def nth_Cons')
qed

lemma norm01_ex:
  assumes "0 \<le> y" and "y \<le> 1"
  shows "norm01 \<lparr>shape = s, data = 0 # y # replicate 49 1\<rparr> =
           \<lparr>shape = s, data = 0 # (y / 2) / (1 - y / 2) # replicate 49 1\<rparr>"
proof -
  have d: "1 - y / 2 > 0" "\<not> 1 - y / 2 < 1 / 10 ^ 6" using assms by simp_all
  have a: "clip01 ((0 - y / 2) / (1 - y / 2)) = 0"
    using assms d(1) by (simp add: clip01_def max_def divide_le_0_iff)
  have "(y - y / 2) / (1 - y / 2) \<le> 1" using assms d(1) by (simp add: divide_le_eq)
  moreover have "0 \<le> (y - y / 2) / (1 - y / 2)" using assms d(1) by simp
  ultimately have b: "clip01 ((y - y / 2) / (1 - y / 2)) = (y / 2) / (1 - y / 2)"
    by (simp add: clip01_def min_def max_def)
  have c: "clip01 ((1 - y / 2) / (1 - y / 2)) = 1"
    using d(1) by (simp add: clip01_def)
  have e: "map (\<lambda>v. clip01 ((v - y / 2) / (1 - y / 2))) (0 # y # replicate 49 1) =
      0 # (y / 2) / (1 - y / 2) # replicate 49 1"
    by (simp only: list.map map_replicate a b c)
  define m where "m = \<lparr>shape = s, data = 0 # y # replicate 49 1\<rparr>"
  have dm: "data m = 0 # y # replicate 49 1" by (simp add: m_def)
  have lo: "percentile (data m) 1 = y / 2" and hi: "percentile (data m) 99 = 1"
    unfolding dm by (rule percentile_ex[OF assms])+
  have "norm01 m = m\<lparr>data := map (\<lambda>v. clip01 ((v - y / 2) / (1 - y / 2))) (data m)\<rparr>"
    unfolding norm01_def lo hi Let_def using d(2) by (simp only: if_False)
  also have "\<dots> = \<lparr>shape = s, data = 0 # (y / 2) / (1 - y / 2) # replicate 49 1\<rparr>"
    unfolding dm e by (simp add: m_def)
  finally show ?thesis by (simp only: m_def)
qed

text \<open>
  Claim C8, as amended. The normalization returns unchanged every map whose values lie
  between 0 and 1 and whose 1st and 99th percentiles are 0 and 1.
\<close>

theorem norm01_fixed_point:
  assumes "in01 (data m)" and "percentile (data m) 1 = 0" and "percentile (data m) 99 = 1"
  shows "norm01 m = m"
proof -
  have "map (\<lambda>v. clip01 ((v - 0) / (1 - 0))) (data m) = data m"
    using assms(1) by (intro map_idI) (auto simp: in01_def clip01_def min_def max_def)
  then show ?thesis
    unfolding norm01_def assms(2,3) Let_def by simp
qed

theorem norm01_fixed_point_witness: "norm01 ex_map = ex_map"
proof (rule norm01_fixed_point)
  show "in01 (data ex_map)" by (simp add: ex_map_def in01_def)
  show "percentile (data ex_map) 1 = 0" by (simp add: percentile_def ex_map_def Let_def)
  show "percentile (data ex_map) 99 = 1" by (simp add: percentile_def ex_map_def Let_def)
qed

text \<open>
  The example map has values between 0 and 1. Normalising it moves its second entry from
  2/3 to 1/2, and normalising the result, a normalised map, moves that entry again, from
  1/2 to 1/3: a change of 1/6 each time, on a scale from 0 to 1.
\<close>

theorem norm01_not_idempotent_counterexample:
  "in01 (data ex_stretch) \<and>
   norm01 ex_stretch = \<lparr>shape = [3, 17], data = 0 # 1 / 2 # replicate 49 1\<rparr> \<and>
   norm01 (norm01 ex_stretch) = \<lparr>shape = [3, 17], data = 0 # 1 / 3 # replicate 49 1\<rparr>"
proof -
  have a: "norm01 ex_stretch = \<lparr>shape = [3, 17], data = 0 # 1 / 2 # replicate 49 1\<rparr>"
    unfolding ex_stretch_def using norm01_ex[of "2 / 3" "[3, 17]"] by simp
  have b: "norm01 \<lparr>shape = [3, 17], data = 0 # 1 / 2 # replicate 49 1\<rparr> =
      \<lparr>shape = [3, 17], data = 0 # 1 / 3 # replicate 49 1\<rparr>"
    using norm01_ex[of "1 / 2" "[3, 17]"] by simp
  have c: "in01 (data ex_stretch)" by (simp add: ex_stretch_def in01_def)
  from a b c show ?thesis by simp
qed

end
